theory Spec2Isabelle
  imports Complex_Main "HOL-Library.Word"
begin

section \<open>Data model\<close>

subsection \<open>Single-precision values\<close>

text \<open>
  The muon branches are \<^verbatim>\<open>Float_t[]\<close> (knowledge/DATA.md), that is IEEE 754 binary32.
  A value is kept as its three fields: the sign bit, the 8-bit biased exponent and the
  23-bit fraction. Every inhabitant of the type is a bit pattern a branch can hold.
\<close>

datatype Float_t = Float_t (sign: bool) (expo: "8 word") (frac: "23 word")

definition is_nan :: "Float_t \<Rightarrow> bool" where
  "is_nan x = (expo x = 255 \<and> frac x \<noteq> 0)"

text \<open>
  The magnitude of a float: subnormals (exponent field 0) are \<open>frac / 2^149\<close>, normal
  numbers are \<open>(2^23 + frac) * 2^expo / 2^150\<close>. The same formula places the infinities
  (exponent field 255, fraction 0) at \<open>2^128\<close>, above every finite magnitude, so that
  \<open>valof\<close> is an order embedding of all values that are not NaN.
\<close>

definition mag :: "Float_t \<Rightarrow> real" where
  "mag x = (if expo x = 0 then real (unat (frac x)) / 2 ^ 149
            else (2 ^ 23 + real (unat (frac x))) * 2 ^ unat (expo x) / 2 ^ 150)"

definition valof :: "Float_t \<Rightarrow> real" where
  "valof x = (if sign x then - mag x else mag x)"

text \<open>The comparison operators of C++ on \<^verbatim>\<open>float\<close>: false as soon as an operand is NaN.\<close>

definition float_less :: "Float_t \<Rightarrow> Float_t \<Rightarrow> bool" where
  "float_less a b = (\<not> is_nan a \<and> \<not> is_nan b \<and> valof a < valof b)"

definition float_greater :: "Float_t \<Rightarrow> Float_t \<Rightarrow> bool" where
  "float_greater a b = float_less b a"

text \<open>\<^verbatim>\<open>std::abs\<close> on a float clears the sign bit.\<close>

definition float_abs :: "Float_t \<Rightarrow> Float_t" where
  "float_abs x = Float_t False (expo x) (frac x)"

text \<open>The three literals of the muon selection: \<^verbatim>\<open>20.0f\<close> (0x41A00000),
  \<^verbatim>\<open>2.4f\<close> (0x4019999A) and \<^verbatim>\<open>0.15f\<close> (0x3E19999A).\<close>

definition lit_20_0f :: Float_t where
  "lit_20_0f = Float_t False 131 0x200000"

definition lit_2_4f :: Float_t where
  "lit_2_4f = Float_t False 128 0x19999A"

definition lit_0_15f :: Float_t where
  "lit_0_15f = Float_t False 124 0x19999A"

subsection \<open>Events and errors\<close>

text \<open>
  One row of the \<^verbatim>\<open>Events\<close> tree, with the branches the analysis reads
  (knowledge/DATA.md): \<^verbatim>\<open>Bool_t\<close> as \<open>bool\<close>, \<^verbatim>\<open>Int_t\<close> as a 32-bit word read as a
  signed number with \<open>sint\<close>, \<^verbatim>\<open>UInt_t\<close> as a 32-bit word, an array branch as a list.
\<close>

record event =
  HLT_IsoMu24 :: bool
  HLT_IsoMu18 :: bool
  nJet :: "32 word"
  Muon_pt :: "Float_t list"
  Muon_eta :: "Float_t list"
  Muon_phi :: "Float_t list"
  Muon_mass :: "Float_t list"
  Muon_charge :: "32 word list"
  Muon_tightId :: "bool list"
  Muon_pfRelIso04_all :: "Float_t list"

text \<open>
  What can go wrong while a row is evaluated: an exception derived from
  \<^verbatim>\<open>std::exception\<close> (the vector operations throw \<^verbatim>\<open>std::runtime_error\<close> on
  operands of different sizes), an unchecked element access outside the vector, and a
  signed multiplication whose result does not fit \<^verbatim>\<open>Int_t\<close>. The last two are
  undefined behaviour in C++; the model records them instead of inventing a value.
\<close>

datatype error = runtime_error | out_of_bounds | signed_overflow

section \<open>Vector operations used by the selection\<close>

text \<open>Comparison of a vector with a scalar: an \<^verbatim>\<open>RVec<int>\<close> of zeros and ones of the
  same size.\<close>

definition rvec_greater :: "Float_t list \<Rightarrow> Float_t \<Rightarrow> int list" where
  "rvec_greater v c = map (\<lambda>x. if float_greater x c then 1 else 0) v"

definition rvec_less :: "Float_t list \<Rightarrow> Float_t \<Rightarrow> int list" where
  "rvec_less v c = map (\<lambda>x. if float_less x c then 1 else 0) v"

definition rvec_abs :: "Float_t list \<Rightarrow> Float_t list" where
  "rvec_abs v = map float_abs v"

text \<open>
  \<^verbatim>\<open>v0 && v1\<close> on two vectors: throws when the sizes differ, otherwise the elementwise
  logical and as zeros and ones. The element types only have to convert to \<^verbatim>\<open>bool\<close>;
  the two conversions are the parameters \<open>t0\<close> and \<open>t1\<close>.
\<close>

definition rvec_and :: "('a \<Rightarrow> bool) \<Rightarrow> ('b \<Rightarrow> bool) \<Rightarrow> 'a list \<Rightarrow> 'b list \<Rightarrow> error + int list" where
  "rvec_and t0 t1 v0 v1 =
     (if length v0 \<noteq> length v1 then Inl runtime_error
      else Inr (map (\<lambda>(x, y). if t0 x \<and> t1 y then 1 else 0) (zip v0 v1)))"

definition int_true :: "int \<Rightarrow> bool" where
  "int_true c = (c \<noteq> 0)"

definition bool_true :: "bool \<Rightarrow> bool" where
  "bool_true b = b"

text \<open>\<^verbatim>\<open>Sum\<close> of an \<^verbatim>\<open>RVec<int>\<close>. A vector holds fewer than \<open>2^31\<close> elements, so a
  sum of zeros and ones stays inside \<^verbatim>\<open>int\<close>.\<close>

definition Sum :: "int list \<Rightarrow> int" where
  "Sum v = sum_list v"

text \<open>\<^verbatim>\<open>v[conds]\<close>: throws when the sizes differ, otherwise the elements of \<open>v\<close> whose
  condition is non-zero, in the order they have in \<open>v\<close>.\<close>

definition rvec_mask :: "'a list \<Rightarrow> int list \<Rightarrow> error + 'a list" where
  "rvec_mask v conds =
     (if length conds \<noteq> length v then Inl runtime_error
      else Inr (map fst (filter (\<lambda>(x, c). int_true c) (zip v conds))))"

text \<open>\<^verbatim>\<open>v[i]\<close> with a constant index: no bounds check in the library.\<close>

definition rvec_at :: "'a list \<Rightarrow> nat \<Rightarrow> error + 'a" where
  "rvec_at v i = (if i < length v then Inr (v ! i) else Inl out_of_bounds)"

text \<open>Sequencing of computations that may fail.\<close>

definition bind :: "error + 'a \<Rightarrow> ('a \<Rightarrow> error + 'b) \<Rightarrow> error + 'b" where
  "bind m f = (case m of Inl e \<Rightarrow> Inl e | Inr x \<Rightarrow> f x)"

section \<open>Derived columns and filters\<close>

subsection \<open>applyTriggerSelection\<close>

definition passTrigger :: "event \<Rightarrow> bool" where
  "passTrigger e = (HLT_IsoMu24 e \<or> HLT_IsoMu18 e)"

subsection \<open>applyMuonSelection\<close>

definition goodMuon_mask :: "event \<Rightarrow> error + int list" where
  "goodMuon_mask e =
     bind (rvec_and int_true int_true
             (rvec_greater (Muon_pt e) lit_20_0f)
             (rvec_less (rvec_abs (Muon_eta e)) lit_2_4f))
       (\<lambda>m1. bind (rvec_and int_true bool_true m1 (Muon_tightId e))
         (\<lambda>m2. rvec_and int_true int_true m2 (rvec_less (Muon_pfRelIso04_all e) lit_0_15f)))"

definition nGoodMuon :: "event \<Rightarrow> error + int" where
  "nGoodMuon e = bind (goodMuon_mask e) (\<lambda>m. Inr (Sum m))"

definition goodMuon_pt :: "event \<Rightarrow> error + Float_t list" where
  "goodMuon_pt e = bind (goodMuon_mask e) (rvec_mask (Muon_pt e))"

definition goodMuon_eta :: "event \<Rightarrow> error + Float_t list" where
  "goodMuon_eta e = bind (goodMuon_mask e) (rvec_mask (Muon_eta e))"

definition goodMuon_phi :: "event \<Rightarrow> error + Float_t list" where
  "goodMuon_phi e = bind (goodMuon_mask e) (rvec_mask (Muon_phi e))"

definition goodMuon_mass :: "event \<Rightarrow> error + Float_t list" where
  "goodMuon_mass e = bind (goodMuon_mask e) (rvec_mask (Muon_mass e))"

definition goodMuon_charge :: "event \<Rightarrow> error + 32 word list" where
  "goodMuon_charge e = bind (goodMuon_mask e) (rvec_mask (Muon_charge e))"

subsection \<open>applyDimuonSelection\<close>

text \<open>The string filter \<^verbatim>\<open>"nGoodMuon == 2"\<close>.\<close>

definition exactly_two :: "event \<Rightarrow> error + bool" where
  "exactly_two e = bind (nGoodMuon e) (\<lambda>n. Inr (n = 2))"

text \<open>\<^verbatim>\<open>Int_t * Int_t\<close>: the product of the two signed values when it fits 32 bits.\<close>

definition int_mul :: "32 word \<Rightarrow> 32 word \<Rightarrow> error + int" where
  "int_mul a b =
     (let p = sint a * sint b
      in if - (2 ^ 31) \<le> p \<and> p < 2 ^ 31 then Inr p else Inl signed_overflow)"

definition opposite_sign :: "event \<Rightarrow> error + bool" where
  "opposite_sign e =
     bind (goodMuon_charge e) (\<lambda>charge.
       bind (rvec_at charge 0) (\<lambda>c0.
         bind (rvec_at charge 1) (\<lambda>c1.
           bind (int_mul c0 c1) (\<lambda>p. Inr (p < 0)))))"

subsection \<open>calculateInvariantMass\<close>

text \<open>
  The arguments of one \<^verbatim>\<open>ROOT::Math::PtEtaPhiMVector\<close> constructor call. The vector class,
  its sum and its \<^verbatim>\<open>M()\<close> belong to the external mathematics library and work in double
  precision; the model keeps the constructor arguments and takes the rest,
  \<^verbatim>\<open>static_cast<float>((mu1 + mu2).M())\<close>, as the parameter \<open>inv_mass\<close>.
\<close>

record PtEtaPhiMVector =
  vPt :: Float_t
  vEta :: Float_t
  vPhi :: Float_t
  vM :: Float_t

type_synonym mass_fn = "PtEtaPhiMVector \<Rightarrow> PtEtaPhiMVector \<Rightarrow> Float_t"

definition muon_vector ::
  "Float_t list \<Rightarrow> Float_t list \<Rightarrow> Float_t list \<Rightarrow> Float_t list \<Rightarrow> nat \<Rightarrow> error + PtEtaPhiMVector" where
  "muon_vector pt eta phi mass i =
     bind (rvec_at pt i) (\<lambda>a.
       bind (rvec_at eta i) (\<lambda>b.
         bind (rvec_at phi i) (\<lambda>c.
           bind (rvec_at mass i) (\<lambda>d. Inr \<lparr>vPt = a, vEta = b, vPhi = c, vM = d\<rparr>))))"

definition dimuon_mass :: "mass_fn \<Rightarrow> event \<Rightarrow> error + Float_t" where
  "dimuon_mass inv_mass e =
     bind (goodMuon_pt e) (\<lambda>pt.
       bind (goodMuon_eta e) (\<lambda>eta.
         bind (goodMuon_phi e) (\<lambda>phi.
           bind (goodMuon_mass e) (\<lambda>mass.
             bind (muon_vector pt eta phi mass 0) (\<lambda>mu1.
               bind (muon_vector pt eta phi mass 1) (\<lambda>mu2. Inr (inv_mass mu1 mu2)))))))"

definition muon1_pt :: "event \<Rightarrow> error + Float_t" where
  "muon1_pt e = bind (goodMuon_pt e) (\<lambda>pt. rvec_at pt 0)"

definition muon2_pt :: "event \<Rightarrow> error + Float_t" where
  "muon2_pt e = bind (goodMuon_pt e) (\<lambda>pt. rvec_at pt 1)"

section \<open>The event loop\<close>

text \<open>
  A named filter node of the data frame: its label, its predicate and the two counters
  the node keeps, the rows it accepted and the rows it rejected.
\<close>

record filter_node =
  label :: string
  predicate :: "event \<Rightarrow> error + bool"
  accepted :: nat
  rejected :: nat

text \<open>
  One row walks down the chain of filters in declaration order. A filter is evaluated
  only when every filter before it accepted the row; the first rejection ends the walk,
  and an error ends the whole loop.
\<close>

fun check_filters :: "event \<Rightarrow> filter_node list \<Rightarrow> error + (filter_node list \<times> bool)" where
  "check_filters e [] = Inr ([], True)"
| "check_filters e (f # fs) =
     (case predicate f e of
        Inl err \<Rightarrow> Inl err
      | Inr ok \<Rightarrow>
          if ok then
            (case check_filters e fs of
               Inl err \<Rightarrow> Inl err
             | Inr (fs', res) \<Rightarrow> Inr (f\<lparr>accepted := accepted f + 1\<rparr> # fs', res))
          else Inr (f\<lparr>rejected := rejected f + 1\<rparr> # fs, False))"

text \<open>The three named filters that \<^verbatim>\<open>run\<close> declares, and their chain: trigger,
  exactly two good muons, opposite sign.\<close>

definition trigger_node :: filter_node where
  "trigger_node =
     \<lparr>label = ''Trigger selection (HLT_IsoMu24 || HLT_IsoMu18)'',
      predicate = (\<lambda>e. Inr (passTrigger e)), accepted = 0, rejected = 0\<rparr>"

definition pair_node :: filter_node where
  "pair_node =
     \<lparr>label = ''Exactly 2 good muons'', predicate = exactly_two, accepted = 0, rejected = 0\<rparr>"

definition charge_node :: filter_node where
  "charge_node =
     \<lparr>label = ''Opposite-sign muons'', predicate = opposite_sign, accepted = 0, rejected = 0\<rparr>"

definition analysis_chain :: "filter_node list" where
  "analysis_chain = [trigger_node, pair_node, charge_node]"

text \<open>The values the four histograms are filled with for a selected row:
  \<^verbatim>\<open>nJet\<close>, \<^verbatim>\<open>muon1_pt\<close>, \<^verbatim>\<open>muon2_pt\<close>, \<^verbatim>\<open>dimuon_mass\<close>.\<close>

type_synonym fill = "32 word \<times> Float_t \<times> Float_t \<times> Float_t"

definition selected_values :: "mass_fn \<Rightarrow> event \<Rightarrow> error + fill" where
  "selected_values inv_mass e =
     bind (muon1_pt e) (\<lambda>p1.
       bind (muon2_pt e) (\<lambda>p2.
         bind (dimuon_mass inv_mass e) (\<lambda>m. Inr (nJet e, p1, p2, m))))"

record loop_state =
  chain :: "filter_node list"
  fills :: "fill list"

fun event_loop :: "mass_fn \<Rightarrow> event list \<Rightarrow> loop_state \<Rightarrow> error + loop_state" where
  "event_loop inv_mass [] s = Inr s"
| "event_loop inv_mass (e # es) s =
     (case check_filters e (chain s) of
        Inl err \<Rightarrow> Inl err
      | Inr (c, res) \<Rightarrow>
          if res then
            (case selected_values inv_mass e of
               Inl err \<Rightarrow> Inl err
             | Inr v \<Rightarrow> event_loop inv_mass es \<lparr>chain = c, fills = fills s @ [v]\<rparr>)
          else event_loop inv_mass es \<lparr>chain = c, fills = fills s\<rparr>)"

text \<open>The cutflow report: for every named filter, in declaration order, its label, the
  rows that passed it and the rows that reached it.\<close>

definition Report :: "filter_node list \<Rightarrow> (string \<times> nat \<times> nat) list" where
  "Report c = map (\<lambda>f. (label f, accepted f, accepted f + rejected f)) c"

section \<open>run, parseArgs and main\<close>

text \<open>\<^verbatim>\<open>Long64_t\<close> is a 64-bit word read as a signed number.\<close>

record AnalysisConfig =
  inputFile :: string
  outputFile :: string
  outputDir :: string
  maxEvents :: "64 word option"

text \<open>
  \<^verbatim>\<open>Range(begin, end)\<close> of the data frame, with the default stride 1. Its parameters
  are \<^verbatim>\<open>unsigned int\<close>. The library documents it as the entries \<open>[begin, end)\<close>, where
  an \<open>end\<close> of zero means until the end of the dataset, and it throws when
  \<open>end\<close> is neither zero nor at least \<open>begin\<close>.
\<close>

definition Range :: "32 word \<Rightarrow> 32 word \<Rightarrow> 'a list \<Rightarrow> error + 'a list" where
  "Range begin end rows =
     (if end \<noteq> 0 \<and> end < begin then Inl runtime_error
      else if end = 0 then Inr (drop (unat begin) rows)
      else Inr (take (unat end - unat begin) (drop (unat begin) rows)))"

text \<open>
  What a run leaves behind: whether implicit multithreading was enabled, the rows that
  entered the analysis chain, the cutflow report and the histogram fills.
\<close>

record run_result =
  implicit_mt :: bool
  rows_in :: "event list"
  cutflow :: "(string \<times> nat \<times> nat) list"
  histo_fills :: "fill list"

text \<open>
  \<^verbatim>\<open>DimuonAnalysis::run\<close>. The parameter \<open>source\<close> is the file system: the rows of the
  \<^verbatim>\<open>Events\<close> tree of a file, or \<open>None\<close> when the data frame cannot be built on it.
  The call \<^verbatim>\<open>node.Range(0, m_config.maxEvents.value())\<close> converts the \<^verbatim>\<open>Long64_t\<close> to
  \<^verbatim>\<open>unsigned int\<close>, which keeps the low 32 bits. The rows are evaluated in source order,
  also when implicit multithreading is enabled: the scheduling of the worker threads is
  not part of this development.
\<close>

definition run :: "mass_fn \<Rightarrow> (string \<Rightarrow> event list option) \<Rightarrow> AnalysisConfig \<Rightarrow> error + run_result" where
  "run inv_mass source config =
     (let mt = (maxEvents config = None)
      in case source (inputFile config) of
           None \<Rightarrow> Inl runtime_error
         | Some rows \<Rightarrow>
             bind (case maxEvents config of
                     None \<Rightarrow> Inr rows
                   | Some n \<Rightarrow> Range 0 (ucast n) rows) (\<lambda>node.
               bind (event_loop inv_mass node \<lparr>chain = analysis_chain, fills = []\<rparr>) (\<lambda>s.
                 Inr \<lparr>implicit_mt = mt, rows_in = node, cutflow = Report (chain s),
                      histo_fills = fills s\<rparr>)))"

text \<open>
  \<^verbatim>\<open>parseArgs\<close>. The list \<open>opts\<close> holds what the successive calls of \<^verbatim>\<open>getopt_long\<close>
  return before \<open>-1\<close>: the option character and \<^verbatim>\<open>optarg\<close>. For an unknown option or a
  missing argument \<^verbatim>\<open>getopt_long\<close> returns \<^verbatim>\<open>'?'\<close>. The result is \<open>Inl code\<close> when
  \<^verbatim>\<open>std::exit(code)\<close> is called. \<^verbatim>\<open>std::atoll\<close> is the parameter \<open>atoll\<close>.
\<close>

fun parseArgs_loop ::
  "(string \<Rightarrow> 64 word) \<Rightarrow> (char \<times> string) list \<Rightarrow> AnalysisConfig \<Rightarrow> int + AnalysisConfig" where
  "parseArgs_loop atoll [] config = Inr config"
| "parseArgs_loop atoll ((opt, optarg) # rest) config =
     (if opt = CHR ''i'' then parseArgs_loop atoll rest (config\<lparr>inputFile := optarg\<rparr>)
      else if opt = CHR ''o'' then parseArgs_loop atoll rest (config\<lparr>outputFile := optarg\<rparr>)
      else if opt = CHR ''d'' then parseArgs_loop atoll rest (config\<lparr>outputDir := optarg\<rparr>)
      else if opt = CHR ''n'' then
        parseArgs_loop atoll rest (config\<lparr>maxEvents := Some (atoll optarg)\<rparr>)
      else Inl (if opt = CHR ''h'' then 0 else 1))"

definition parseArgs :: "(string \<Rightarrow> 64 word) \<Rightarrow> (char \<times> string) list \<Rightarrow> int + AnalysisConfig" where
  "parseArgs atoll opts =
     parseArgs_loop atoll opts
       \<lparr>inputFile = ''data.root'', outputFile = ''output.root'', outputDir = ''.'',
        maxEvents = None\<rparr>"

text \<open>
  \<^verbatim>\<open>main\<close>: the exit code of the process. The handler catches \<^verbatim>\<open>std::exception\<close>;
  a run that left defined behaviour has no exit code (\<open>None\<close>).
\<close>

definition main ::
  "mass_fn \<Rightarrow> (string \<Rightarrow> 64 word) \<Rightarrow> (string \<Rightarrow> event list option) \<Rightarrow> (char \<times> string) list
     \<Rightarrow> int option" where
  "main inv_mass atoll source opts =
     (case parseArgs atoll opts of
        Inl code \<Rightarrow> Some code
      | Inr config \<Rightarrow>
          (case run inv_mass source config of
             Inr r \<Rightarrow> Some 0
           | Inl err \<Rightarrow> if err = runtime_error then Some 1 else None))"

section \<open>Notions used to state the properties\<close>

text \<open>
  The selection in the words of the specification: transverse momentum above 20,
  absolute pseudorapidity below 2.4, identification flag set, isolation below 0.15,
  read on the real value of each float. A NaN satisfies no comparison.
\<close>

definition spec_good_muon :: "Float_t \<Rightarrow> Float_t \<Rightarrow> bool \<Rightarrow> Float_t \<Rightarrow> bool" where
  "spec_good_muon pt eta tight isol =
     ((\<not> is_nan pt \<and> valof pt > 20) \<and> (\<not> is_nan eta \<and> \<bar>valof eta\<bar> < 2.4) \<and> tight
       \<and> (\<not> is_nan isol \<and> valof isol < 0.15))"

definition spec_mask :: "event \<Rightarrow> int list" where
  "spec_mask e =
     map (\<lambda>i. if spec_good_muon (Muon_pt e ! i) (Muon_eta e ! i) (Muon_tightId e ! i)
                    (Muon_pfRelIso04_all e ! i) then 1 else 0) [0..<length (Muon_pt e)]"

text \<open>The four arrays the mask is computed from have the same length.\<close>

definition aligned :: "event \<Rightarrow> bool" where
  "aligned e =
     (length (Muon_eta e) = length (Muon_pt e) \<and> length (Muon_tightId e) = length (Muon_pt e)
       \<and> length (Muon_pfRelIso04_all e) = length (Muon_pt e))"

text \<open>The positions of the true entries of a mask, in array order.\<close>

definition good_positions :: "int list \<Rightarrow> nat list" where
  "good_positions m = filter (\<lambda>k. int_true (m ! k)) [0..<length m]"

text \<open>A filter node with its counters advanced, and the two outcomes of its predicate.\<close>

definition bump :: "filter_node \<Rightarrow> nat \<Rightarrow> nat \<Rightarrow> filter_node" where
  "bump f a r = f\<lparr>accepted := accepted f + a, rejected := rejected f + r\<rparr>"

definition passes :: "filter_node \<Rightarrow> event \<Rightarrow> bool" where
  "passes f e = (predicate f e = Inr True)"

definition fails :: "filter_node \<Rightarrow> event \<Rightarrow> bool" where
  "fails f e = (predicate f e = Inr False)"

text \<open>A float as a natural number of units of \<open>2^-150\<close>, sign dropped.\<close>

definition scaled :: "Float_t \<Rightarrow> nat" where
  "scaled x =
     (if expo x = 0 then 2 * unat (frac x)
      else (2 ^ 23 + unat (frac x)) * 2 ^ unat (expo x))"

section \<open>Sample events\<close>

text \<open>
  Two muons that both pass the selection, with opposite charges and both triggers set:
  \<open>pt = 45, 40\<close>, \<open>eta = 0.1, -0.1\<close>, \<open>phi = 0, pi\<close>, \<open>mass = 0.105\<close>,
  isolation \<open>0.01, 0.02\<close>, each rounded to single precision.
\<close>

definition scenario1 :: event where
  "scenario1 =
     \<lparr>HLT_IsoMu24 = True, HLT_IsoMu18 = True, nJet = 2,
      Muon_pt = [Float_t False 132 0x340000, Float_t False 132 0x200000],
      Muon_eta = [Float_t False 123 0x4CCCCD, Float_t True 123 0x4CCCCD],
      Muon_phi = [Float_t False 0 0, Float_t False 128 0x490FDB],
      Muon_mass = [Float_t False 123 0x570A3D, Float_t False 123 0x570A3D],
      Muon_charge = [1, - 1],
      Muon_tightId = [True, True],
      Muon_pfRelIso04_all = [Float_t False 120 0x23D70A, Float_t False 121 0x23D70A]\<rparr>"

text \<open>
  Three muons of which the second fails the momentum cut (\<open>pt = 25, 10, 45\<close>): the two
  good muons sit at positions 0 and 2, and the first has the smaller momentum.
\<close>

definition unsorted_pair :: event where
  "unsorted_pair =
     \<lparr>HLT_IsoMu24 = True, HLT_IsoMu18 = False, nJet = 0,
      Muon_pt = [Float_t False 131 0x480000, Float_t False 130 0x200000, Float_t False 132 0x340000],
      Muon_eta = [Float_t False 123 0x4CCCCD, Float_t False 0 0, Float_t True 123 0x4CCCCD],
      Muon_phi = [Float_t False 0 0, Float_t False 0 0, Float_t False 128 0x490FDB],
      Muon_mass = [Float_t False 123 0x570A3D, Float_t False 123 0x570A3D, Float_t False 123 0x570A3D],
      Muon_charge = [- 1, 1, 1],
      Muon_tightId = [True, True, True],
      Muon_pfRelIso04_all = [Float_t False 120 0x23D70A, Float_t False 120 0x23D70A, Float_t False 121 0x23D70A]\<rparr>"

text \<open>The first sample event with both trigger flags false.\<close>

definition no_trigger :: event where
  "no_trigger = scenario1\<lparr>HLT_IsoMu24 := False, HLT_IsoMu18 := False\<rparr>"

text \<open>A row with both trigger flags false whose pseudorapidity array is empty while the
  other arrays hold two muons.\<close>

definition ragged_no_trigger :: event where
  "ragged_no_trigger = no_trigger\<lparr>Muon_eta := []\<rparr>"

text \<open>A stand-in for the invariant-mass arithmetic, a file system that holds one file of
  two rows, and the configuration that \<^verbatim>\<open>-n 0\<close> produces.\<close>

definition zero_mass :: mass_fn where
  "zero_mass mu1 mu2 = Float_t False 0 0"

definition two_rows :: "string \<Rightarrow> event list option" where
  "two_rows path = (if path = ''data.root'' then Some [scenario1, no_trigger] else None)"

definition limit_zero :: AnalysisConfig where
  "limit_zero =
     \<lparr>inputFile = ''data.root'', outputFile = ''output.root'', outputDir = ''.'',
      maxEvents = Some 0\<rparr>"

definition limit_zero_result :: run_result where
  "limit_zero_result =
     \<lparr>implicit_mt = False, rows_in = [scenario1, no_trigger],
      cutflow = [(''Trigger selection (HLT_IsoMu24 || HLT_IsoMu18)'', 1, 2),
                 (''Exactly 2 good muons'', 1, 1), (''Opposite-sign muons'', 1, 1)],
      histo_fills = [(2, Float_t False 132 0x340000, Float_t False 132 0x200000,
                      Float_t False 0 0)]\<rparr>"

text \<open>What \<^verbatim>\<open>getopt_long\<close> reported: the first option that is not one of
  \<^verbatim>\<open>-i -o -d -n\<close> ends \<^verbatim>\<open>parseArgs\<close>; it is either the help option or an error.\<close>

definition config_option :: "char \<Rightarrow> bool" where
  "config_option c = (c = CHR ''i'' \<or> c = CHR ''o'' \<or> c = CHR ''d'' \<or> c = CHR ''n'')"

definition first_stop :: "(char \<times> string) list \<Rightarrow> char option" where
  "first_stop opts = map_option fst (find (\<lambda>(c, a). \<not> config_option c) opts)"

definition help_requested :: "(char \<times> string) list \<Rightarrow> bool" where
  "help_requested opts = (first_stop opts = Some CHR ''h'')"

definition getopt_error :: "(char \<times> string) list \<Rightarrow> bool" where
  "getopt_error opts = (case first_stop opts of None \<Rightarrow> False | Some c \<Rightarrow> c \<noteq> CHR ''h'')"

text \<open>
  What \<^verbatim>\<open>std::atoll\<close> returns on a string without leading white space or sign whose
  leading decimal digits fit 64 bits: the number they spell, and 0 when there are none.
\<close>

definition is_digit :: "char \<Rightarrow> bool" where
  "is_digit c = (48 \<le> (of_char c :: nat) \<and> (of_char c :: nat) \<le> 57)"

definition atoll_digits :: "string \<Rightarrow> 64 word" where
  "atoll_digits s =
     word_of_nat (foldl (\<lambda>n c. 10 * n + (of_char c - 48)) 0 (takeWhile is_digit s))"

text \<open>
  A row that respects the data model: all muon arrays of the row have one length, and
  every charge is \<open>+1\<close> or \<open>-1\<close> (knowledge/DATA.md).
\<close>

definition well_formed :: "event \<Rightarrow> bool" where
  "well_formed e =
     (aligned e \<and> length (Muon_phi e) = length (Muon_pt e)
      \<and> length (Muon_mass e) = length (Muon_pt e)
      \<and> length (Muon_charge e) = length (Muon_pt e)
      \<and> list_all (\<lambda>c. c = 1 \<or> c = - 1) (Muon_charge e))"

text \<open>
  The rows that \<^verbatim>\<open>Range(0, maxEvents)\<close> lets through when a limit is set, and all rows
  otherwise.
\<close>

definition limit_rows :: "AnalysisConfig \<Rightarrow> 'a list \<Rightarrow> 'a list" where
  "limit_rows config rows =
     (case maxEvents config of
        None \<Rightarrow> rows
      | Some n \<Rightarrow> if (ucast n :: 32 word) = 0 then rows
                  else take (unat (ucast n :: 32 word)) rows)"

text \<open>
  A row on which only the nodes that the row reaches have to return: the pair filter is
  looked at only when the trigger accepted the row, the charge filter only when the pair
  filter accepted it, and the histogram columns only when all three accepted it.
\<close>

definition returns :: "error + 'a \<Rightarrow> bool" where
  "returns x = (case x of Inl err \<Rightarrow> False | Inr v \<Rightarrow> True)"

definition row_ok :: "mass_fn \<Rightarrow> event \<Rightarrow> bool" where
  "row_ok inv_mass e =
     (if \<not> passTrigger e then True
      else if exactly_two e \<noteq> Inr True then returns (exactly_two e)
      else if opposite_sign e \<noteq> Inr True then returns (opposite_sign e)
      else returns (selected_values inv_mass e))"

text \<open>A command-line value that spells a decimal number, with an optional sign.\<close>

definition decimal_number :: "string \<Rightarrow> bool" where
  "decimal_number s =
     (case s of
        [] \<Rightarrow> False
      | c # cs \<Rightarrow>
          if c = CHR ''-'' \<or> c = CHR ''+'' then cs \<noteq> [] \<and> list_all is_digit cs
          else list_all is_digit s)"

text \<open>
  Two more rows on which a later node would throw. The first fires a trigger and has one
  good muon, but its charge array is empty, so the opposite-sign filter would throw. The
  second has two good muons of equal charge and an empty \<open>phi\<close> array, so the invariant
  mass would throw. A file that holds four rows.
\<close>

definition ragged_single :: event where
  "ragged_single =
     \<lparr>HLT_IsoMu24 = False, HLT_IsoMu18 = True, nJet = 1,
      Muon_pt = [Float_t False 132 0x340000],
      Muon_eta = [Float_t False 123 0x4CCCCD],
      Muon_phi = [],
      Muon_mass = [],
      Muon_charge = [],
      Muon_tightId = [True],
      Muon_pfRelIso04_all = [Float_t False 120 0x23D70A]\<rparr>"

definition ragged_same_sign :: event where
  "ragged_same_sign = scenario1\<lparr>Muon_phi := [], Muon_charge := [1, 1]\<rparr>"

definition four_rows :: "string \<Rightarrow> event list option" where
  "four_rows path =
     (if path = ''data.root''
      then Some [scenario1, ragged_no_trigger, ragged_single, ragged_same_sign] else None)"

section \<open>Properties\<close>

subsection \<open>Single-precision comparisons against the literals\<close>

lemma frac_bound: "unat (frac x) < 2 ^ 23"
  using unsigned_less [of "frac x"] by simp

lemma expo_bound: "unat (expo x) < 256"
  using unsigned_less [of "expo x"] by simp

lemma expo_zero_iff: "(expo x = 0) = (unat (expo x) = 0)"
  by (simp add: unat_eq_0)

lemma mag_scaled: "mag x = real (scaled x) / 2 ^ 150"
proof -
  have "(2::real) ^ 150 = 2 * 2 ^ 149" by simp
  then show ?thesis
    unfolding mag_def scaled_def by (simp del: power_Suc)
qed

lemma scaled_small:
  assumes "unat (expo x) < t" 
  shows "scaled x < 2 ^ (23 + t)"
proof (cases "expo x = 0")
  case True
  have "2 * unat (frac x) < 2 * 2 ^ 23" using frac_bound [of x] by simp
  also have "\<dots> = (2::nat) ^ 24" by simp
  also have "\<dots> \<le> 2 ^ (23 + t)" using assms by (intro power_increasing) auto
  finally show ?thesis using True by (simp add: scaled_def)
next
  case False
  have "(2 ^ 23 + unat (frac x)) * 2 ^ unat (expo x) < (2 ^ 23 + 2 ^ 23) * (2::nat) ^ unat (expo x)"
    using frac_bound [of x] by simp
  also have "\<dots> = 2 ^ (24 + unat (expo x))" by (simp add: power_add)
  also have "\<dots> \<le> 2 ^ (23 + t)" using assms by (intro power_increasing) auto
  finally show ?thesis using False by (simp add: scaled_def)
qed

lemma scaled_multiple:
  assumes "t \<le> unat (expo x)" and "0 < t"
  shows "\<exists>j. scaled x = j * 2 ^ t"
proof -
  from assms have nz: "expo x \<noteq> 0" by (auto simp: expo_zero_iff)
  have "(2::nat) ^ unat (expo x) = 2 ^ (unat (expo x) - t) * 2 ^ t"
    using assms by (simp flip: power_add)
  then have "scaled x = ((2 ^ 23 + unat (frac x)) * 2 ^ (unat (expo x) - t)) * 2 ^ t"
    using nz by (simp add: scaled_def)
  then show ?thesis by blast
qed

lemma scaled_lt_2_4: "(scaled x < 10066330 * 2 ^ 128) = (5 * scaled x < 12 * 2 ^ 150)"
proof (cases "unat (expo x) < 128")
  case True
  from scaled_small [OF this] have s: "scaled x < 2 ^ 151" by simp
  have a: "(2::nat) ^ 151 = 8388608 * 2 ^ 128" by simp
  have b: "(12::nat) * 2 ^ 150 = 50331648 * 2 ^ 128" by simp
  have "scaled x < 10066330 * 2 ^ 128" using s unfolding a by simp
  moreover have "5 * scaled x < 12 * 2 ^ 150" using s unfolding a b by simp
  ultimately show ?thesis by simp
next
  case False
  then obtain j where j: "scaled x = j * 2 ^ 128"
    using scaled_multiple [of 128 x] by auto
  have b: "(12::nat) * 2 ^ 150 = 50331648 * 2 ^ 128" by simp
  have "(j * 2 ^ 128 < 10066330 * (2::nat) ^ 128) = (j < 10066330)" by simp
  moreover have "(5 * (j * 2 ^ 128) < 50331648 * (2::nat) ^ 128) = (5 * j < 50331648)"
    by (simp add: mult.assoc [symmetric])
  moreover have "(5 * j < 50331648) = (j < 10066330)" by arith
  ultimately show ?thesis unfolding j b by simp
qed

lemma scaled_lt_0_15: "(scaled x < 10066330 * 2 ^ 124) = (20 * scaled x < 3 * 2 ^ 150)"
proof (cases "unat (expo x) < 124")
  case True
  from scaled_small [OF this] have s: "scaled x < 2 ^ 147" by simp
  have a: "(2::nat) ^ 147 = 8388608 * 2 ^ 124" by simp
  have b: "(3::nat) * 2 ^ 150 = 201326592 * 2 ^ 124" by simp
  have "scaled x < 10066330 * 2 ^ 124" using s unfolding a by simp
  moreover have "20 * scaled x < 3 * 2 ^ 150" using s unfolding a b by simp
  ultimately show ?thesis by simp
next
  case False
  then obtain j where j: "scaled x = j * 2 ^ 124"
    using scaled_multiple [of 124 x] by auto
  have b: "(3::nat) * 2 ^ 150 = 201326592 * 2 ^ 124" by simp
  have "(j * 2 ^ 124 < 10066330 * (2::nat) ^ 124) = (j < 10066330)" by simp
  moreover have "(20 * (j * 2 ^ 124) < 201326592 * (2::nat) ^ 124) = (20 * j < 201326592)"
    by (simp add: mult.assoc [symmetric])
  moreover have "(20 * j < 201326592) = (j < 10066330)" by arith
  ultimately show ?thesis unfolding j b by simp
qed

lemma mag_nonneg: "0 \<le> mag x"
  by (simp add: mag_scaled)

lemma mag_less_iff: "(mag x < real c / 2 ^ 150) = (scaled x < c)"
  by (simp add: mag_scaled divide_less_cancel)

lemma abs_valof: "\<bar>valof x\<bar> = mag x"
  using mag_nonneg [of x] by (simp add: valof_def)

lemma is_nan_float_abs: "is_nan (float_abs x) = is_nan x"
  by (simp add: is_nan_def float_abs_def)

lemma valof_float_abs: "valof (float_abs x) = mag x"
  by (simp add: valof_def float_abs_def mag_def)

lemma scaled_lit_2_4f: "scaled lit_2_4f = 10066330 * 2 ^ 128"
  by (simp add: scaled_def lit_2_4f_def)

lemma scaled_lit_0_15f: "scaled lit_0_15f = 10066330 * 2 ^ 124"
  by (simp add: scaled_def lit_0_15f_def)

lemma scaled_lit_20_0f: "scaled lit_20_0f = 10485760 * 2 ^ 131"
  by (simp add: scaled_def lit_20_0f_def)

lemma valof_lit_20_0f: "valof lit_20_0f = 20"
proof -
  have "(2::real) ^ 150 = 2 ^ 19 * 2 ^ 131" by simp
  then have "real (10485760 * 2 ^ 131) / 2 ^ 150 = 10485760 / 2 ^ 19" by simp
  also have "\<dots> = (20::real)" by simp
  finally have "mag lit_20_0f = 20" by (simp only: mag_scaled scaled_lit_20_0f)
  then show ?thesis by (simp add: valof_def lit_20_0f_def)
qed

lemma not_nan_lits: "\<not> is_nan lit_20_0f" "\<not> is_nan lit_2_4f" "\<not> is_nan lit_0_15f"
  by (simp_all add: is_nan_def lit_20_0f_def lit_2_4f_def lit_0_15f_def)

lemma float_greater_20: "float_greater x lit_20_0f = (\<not> is_nan x \<and> 20 < valof x)"
  by (auto simp: float_greater_def float_less_def not_nan_lits valof_lit_20_0f)

lemma mag_lt_12_5: "(mag x < 12 / 5) = (5 * scaled x < 12 * 2 ^ 150)"
proof -
  have "(mag x < 12 / 5) = (5 * real (scaled x) < 12 * 2 ^ 150)"
    by (simp add: mag_scaled field_simps del: power_Suc)
  also have "\<dots> = (real (5 * scaled x) < real (12 * 2 ^ 150))" by simp
  also have "\<dots> = (5 * scaled x < 12 * 2 ^ 150)" by (simp only: of_nat_less_iff)
  finally show ?thesis .
qed

lemma mag_lt_3_20: "(mag x < 3 / 20) = (20 * scaled x < 3 * 2 ^ 150)"
proof -
  have "(mag x < 3 / 20) = (20 * real (scaled x) < 3 * 2 ^ 150)"
    by (simp add: mag_scaled field_simps del: power_Suc)
  also have "\<dots> = (real (20 * scaled x) < real (3 * 2 ^ 150))" by simp
  also have "\<dots> = (20 * scaled x < 3 * 2 ^ 150)" by (simp only: of_nat_less_iff)
  finally show ?thesis .
qed

lemma valof_lit_2_4f: "valof lit_2_4f = real (10066330 * 2 ^ 128) / 2 ^ 150"
  by (simp only: valof_def mag_scaled scaled_lit_2_4f) (simp add: lit_2_4f_def)

lemma valof_lit_0_15f: "valof lit_0_15f = real (10066330 * 2 ^ 124) / 2 ^ 150"
  by (simp only: valof_def mag_scaled scaled_lit_0_15f) (simp add: lit_0_15f_def)

lemma float_abs_less_2_4:
  "float_less (float_abs x) lit_2_4f = (\<not> is_nan x \<and> \<bar>valof x\<bar> < 12 / 5)"
proof -
  have "(mag x < valof lit_2_4f) = (mag x < 12 / 5)"
    unfolding valof_lit_2_4f mag_less_iff scaled_lt_2_4 mag_lt_12_5 ..
  then show ?thesis
    by (simp add: float_less_def is_nan_float_abs valof_float_abs abs_valof not_nan_lits)
qed

lemma float_less_0_15:
  "float_less x lit_0_15f = (\<not> is_nan x \<and> valof x < 3 / 20)"
proof (cases "sign x")
  case True
  have p: "0 < valof lit_0_15f" unfolding valof_lit_0_15f by simp
  have "valof x \<le> 0" using True mag_nonneg [of x] by (simp add: valof_def)
  then have "valof x < valof lit_0_15f" "valof x < 3 / 20" using p by simp_all
  then show ?thesis by (simp add: float_less_def not_nan_lits)
next
  case False
  then have v: "valof x = mag x" by (simp add: valof_def)
  have "(mag x < valof lit_0_15f) = (mag x < 3 / 20)"
    unfolding valof_lit_0_15f mag_less_iff scaled_lt_0_15 mag_lt_3_20 ..
  then show ?thesis by (simp add: float_less_def not_nan_lits v)
qed

subsection \<open>The trigger filter\<close>

text \<open>
  C4: the trigger filter, the first node of the chain, accepts a row exactly when at least
  one of the two trigger columns \<^verbatim>\<open>HLT_IsoMu24\<close>, \<^verbatim>\<open>HLT_IsoMu18\<close> is true; a row with
  both flags false is rejected there and reaches no later filter.
\<close>

theorem C4_trigger_filter:
  "predicate (hd analysis_chain) e = Inr (HLT_IsoMu24 e \<or> HLT_IsoMu18 e)
   \<and> (\<not> (HLT_IsoMu24 e \<or> HLT_IsoMu18 e) \<longrightarrow>
        (\<exists>c. check_filters e analysis_chain = Inr (c, False)
              \<and> map accepted c = [0, 0, 0] \<and> map rejected c = [1, 0, 0]))"
  by (simp add: analysis_chain_def trigger_node_def pair_node_def charge_node_def passTrigger_def)

theorem C4_trigger_filter_witness:
  "\<not> (HLT_IsoMu24 no_trigger \<or> HLT_IsoMu18 no_trigger)
   \<and> predicate (hd analysis_chain) no_trigger = Inr False
   \<and> predicate (hd analysis_chain) scenario1 = Inr True
   \<and> (\<exists>c. check_filters no_trigger analysis_chain = Inr (c, False)
          \<and> map accepted c = [0, 0, 0] \<and> map rejected c = [1, 0, 0])"
  using C4_trigger_filter [of no_trigger] C4_trigger_filter [of scenario1]
  by (simp add: no_trigger_def scenario1_def)

subsection \<open>The good-muon mask\<close>

lemma rvec_and_Inr:
  "length v0 = length v1 \<Longrightarrow>
   rvec_and t0 t1 v0 v1 = Inr (map (\<lambda>i. if t0 (v0 ! i) \<and> t1 (v1 ! i) then 1 else 0) [0..<length v0])"
  by (auto simp: rvec_and_def intro!: nth_equalityI)

lemma rvec_and_Inl:
  "length v0 \<noteq> length v1 \<Longrightarrow> rvec_and t0 t1 v0 v1 = Inl runtime_error"
  by (simp add: rvec_and_def)

lemma rvec_and_length:
  "rvec_and t0 t1 v0 v1 = Inr m \<Longrightarrow> length v0 = length v1 \<and> length m = length v0"
  by (auto simp: rvec_and_def split: if_splits)

lemma goodMuon_mask_aligned:
  assumes "aligned e"
  shows "goodMuon_mask e = Inr (spec_mask e)"
proof -
  let ?n = "length (Muon_pt e)"
  from assms have l: "length (Muon_eta e) = ?n" "length (Muon_tightId e) = ?n"
    "length (Muon_pfRelIso04_all e) = ?n" by (simp_all add: aligned_def)
  have a: "rvec_and int_true int_true (rvec_greater (Muon_pt e) lit_20_0f)
             (rvec_less (rvec_abs (Muon_eta e)) lit_2_4f)
           = Inr (map (\<lambda>i. if float_greater (Muon_pt e ! i) lit_20_0f
                               \<and> float_less (float_abs (Muon_eta e ! i)) lit_2_4f then 1 else 0) [0..<?n])"
    (is "_ = Inr ?m1")
    using l by (subst rvec_and_Inr) (auto simp: rvec_greater_def rvec_less_def rvec_abs_def int_true_def)
  have b: "rvec_and int_true bool_true ?m1 (Muon_tightId e)
           = Inr (map (\<lambda>i. if float_greater (Muon_pt e ! i) lit_20_0f
                               \<and> float_less (float_abs (Muon_eta e ! i)) lit_2_4f
                               \<and> Muon_tightId e ! i then 1 else 0) [0..<?n])"
    (is "_ = Inr ?m2")
    using l by (subst rvec_and_Inr) (auto simp: int_true_def bool_true_def)
  have c: "rvec_and int_true int_true ?m2 (rvec_less (Muon_pfRelIso04_all e) lit_0_15f)
           = Inr (map (\<lambda>i. if float_greater (Muon_pt e ! i) lit_20_0f
                               \<and> float_less (float_abs (Muon_eta e ! i)) lit_2_4f
                               \<and> Muon_tightId e ! i
                               \<and> float_less (Muon_pfRelIso04_all e ! i) lit_0_15f then 1 else 0) [0..<?n])"
    using l by (subst rvec_and_Inr) (auto simp: int_true_def rvec_less_def)
  have "goodMuon_mask e = Inr (map (\<lambda>i. if float_greater (Muon_pt e ! i) lit_20_0f
                               \<and> float_less (float_abs (Muon_eta e ! i)) lit_2_4f
                               \<and> Muon_tightId e ! i
                               \<and> float_less (Muon_pfRelIso04_all e ! i) lit_0_15f then 1 else 0) [0..<?n])"
    unfolding goodMuon_mask_def by (simp add: a b c bind_def)
  also have "\<dots> = Inr (spec_mask e)"
    by (simp add: spec_mask_def spec_good_muon_def float_greater_20 float_abs_less_2_4 float_less_0_15)
  finally show ?thesis .
qed

lemma goodMuon_mask_Inr_aligned:
  assumes "goodMuon_mask e = Inr msk"
  shows "aligned e"
proof -
  from assms obtain m1 m2 where
    1: "rvec_and int_true int_true (rvec_greater (Muon_pt e) lit_20_0f)
             (rvec_less (rvec_abs (Muon_eta e)) lit_2_4f) = Inr m1" and
    2: "rvec_and int_true bool_true m1 (Muon_tightId e) = Inr m2" and
    3: "rvec_and int_true int_true m2 (rvec_less (Muon_pfRelIso04_all e) lit_0_15f) = Inr msk"
    by (auto simp: goodMuon_mask_def bind_def split: sum.splits)
  from rvec_and_length [OF 1] rvec_and_length [OF 2] rvec_and_length [OF 3]
  show ?thesis by (simp add: aligned_def rvec_greater_def rvec_less_def rvec_abs_def)
qed

lemma goodMuon_mask_not_aligned:
  "\<not> aligned e \<Longrightarrow> goodMuon_mask e = Inl runtime_error"
proof -
  assume na: "\<not> aligned e"
  have "\<And>err. goodMuon_mask e = Inl err \<Longrightarrow> err = runtime_error"
    by (auto simp: goodMuon_mask_def bind_def rvec_and_def split: sum.splits if_splits)
  with na goodMuon_mask_Inr_aligned [of e] show ?thesis
    by (cases "goodMuon_mask e") auto
qed

lemma Sum_zero_one:
  "\<forall>c \<in> set v. c = 0 \<or> c = 1 \<Longrightarrow> Sum v = int (length (filter int_true v))"
  unfolding Sum_def by (induction v) (auto simp: int_true_def)

lemma spec_mask_zero_one: "\<forall>c \<in> set (spec_mask e). c = 0 \<or> c = 1"
  by (auto simp: spec_mask_def)

text \<open>
  C1: for an event whose muon arrays have one length, the good-muon mask is the elementwise
  conjunction of transverse momentum above 20, absolute pseudorapidity below 2.4,
  identification flag set and isolation below 0.15; it is as long as the source arrays,
  and \<^verbatim>\<open>nGoodMuon\<close> is the number of its true entries.
\<close>

theorem C1_good_muon_mask:
  assumes "aligned e"
  shows "goodMuon_mask e = Inr (spec_mask e)
       \<and> length (spec_mask e) = length (Muon_pt e)
       \<and> nGoodMuon e = Inr (int (length (filter int_true (spec_mask e))))"
  using goodMuon_mask_aligned [OF assms] Sum_zero_one [OF spec_mask_zero_one, of e]
  by (simp add: nGoodMuon_def bind_def spec_mask_def)

lemma spec_mask_scenario1: "spec_mask scenario1 = [1, 1]"
  by (simp add: spec_mask_def scenario1_def spec_good_muon_def is_nan_def valof_def mag_def upt_rec)

theorem C1_good_muon_mask_witness:
  "aligned scenario1 \<and> goodMuon_mask scenario1 = Inr [1, 1] \<and> nGoodMuon scenario1 = Inr 2"
proof -
  have a: "aligned scenario1" by (simp add: aligned_def scenario1_def)
  from C1_good_muon_mask [OF a] show ?thesis
    using a by (simp add: spec_mask_scenario1 int_true_def)
qed

subsection \<open>The pair and charge filters\<close>

lemma rvec_mask_positions:
  assumes "length conds = length v"
  shows "rvec_mask v conds = Inr (map ((!) v) (good_positions conds))"
proof -
  have z: "zip v conds = map (\<lambda>k. (v ! k, conds ! k)) [0..<length conds]"
    using assms by (auto intro!: nth_equalityI)
  have "map fst (filter (\<lambda>(x, c). int_true c) (zip v conds))
        = map ((!) v) (filter (\<lambda>k. int_true (conds ! k)) [0..<length conds])"
    unfolding z by (simp add: filter_map comp_def)
  then show ?thesis using assms by (simp add: rvec_mask_def good_positions_def)
qed

lemma rvec_mask_mismatch:
  "length conds \<noteq> length v \<Longrightarrow> rvec_mask v conds = Inl runtime_error"
  by (simp add: rvec_mask_def)

lemma length_good_positions: "length (good_positions m) = length (filter int_true m)"
proof -
  have "filter int_true (map ((!) m) [0..<length m])
        = map ((!) m) (filter (\<lambda>k. int_true (m ! k)) [0..<length m])"
    by (simp add: filter_map comp_def)
  then have "length (filter int_true (map ((!) m) [0..<length m])) = length (good_positions m)"
    by (simp add: good_positions_def)
  then show ?thesis by (simp add: map_nth)
qed

lemma good_positions_pair:
  assumes "length (good_positions m) = 2"
  shows "\<exists>i j. good_positions m = [i, j] \<and> i < j \<and> j < length m"
proof -
  from assms obtain i j where ij: "good_positions m = [i, j]"
    by (cases "good_positions m"; cases "tl (good_positions m)") auto
  have "sorted_wrt (<) (good_positions m)"
    unfolding good_positions_def by (intro sorted_wrt_filter) simp
  with ij have "i < j" by simp
  moreover have "set (good_positions m) \<subseteq> {0..<length m}"
    by (auto simp: good_positions_def)
  with ij have "j < length m" by simp
  ultimately show ?thesis using ij by blast
qed

lemma exactly_two_mask:
  assumes "exactly_two e = Inr True"
  shows "aligned e \<and> goodMuon_mask e = Inr (spec_mask e) \<and> Sum (spec_mask e) = 2"
proof -
  from assms obtain m where m: "goodMuon_mask e = Inr m" and s: "Sum m = 2"
    by (auto simp: exactly_two_def nGoodMuon_def bind_def split: sum.splits)
  from goodMuon_mask_Inr_aligned [OF m] have a: "aligned e" .
  from goodMuon_mask_aligned [OF a] m have "m = spec_mask e" by simp
  with a m s show ?thesis by simp
qed

lemma exactly_two_positions:
  assumes "exactly_two e = Inr True"
  shows "\<exists>i j. good_positions (spec_mask e) = [i, j] \<and> i < j \<and> j < length (Muon_pt e)"
proof -
  from exactly_two_mask [OF assms] have s: "Sum (spec_mask e) = 2" by simp
  have "Sum (spec_mask e) = int (length (filter int_true (spec_mask e)))"
    by (rule Sum_zero_one [OF spec_mask_zero_one])
  with s have "length (good_positions (spec_mask e)) = 2"
    by (simp add: length_good_positions)
  from good_positions_pair [OF this] show ?thesis by (simp add: spec_mask_def)
qed

lemma length_spec_mask: "length (spec_mask e) = length (Muon_pt e)"
  by (simp add: spec_mask_def)

text \<open>A masked collection of a row with exactly two good muons.\<close>

lemma masked_pair:
  assumes "goodMuon_mask e = Inr (spec_mask e)" and "good_positions (spec_mask e) = [i, j]"
  shows "bind (goodMuon_mask e) (rvec_mask v) =
           (if length v = length (Muon_pt e) then Inr [v ! i, v ! j] else Inl runtime_error)"
  using assms rvec_mask_positions [of "spec_mask e" v]
  by (auto simp: bind_def length_spec_mask rvec_mask_mismatch)

lemma int_mul_negative: "int_mul a b = Inr p \<Longrightarrow> p = sint a * sint b"
  by (auto simp: int_mul_def Let_def split: if_splits)

text \<open>
  C2: a row that passes the exact-pair filter has exactly two true mask entries, at
  positions \<open>i < j\<close> of the arrays; \<^verbatim>\<open>muon1_pt\<close> and \<^verbatim>\<open>muon2_pt\<close> are the momenta at
  \<open>i\<close> and \<open>j\<close> in array order, whatever their size; and when the row also passes the
  opposite-charge filter, the charges at \<open>i\<close> and \<open>j\<close> have a negative product.
\<close>

theorem C2_pair_and_charge:
  assumes "exactly_two e = Inr True"
  shows "\<exists>m i j. goodMuon_mask e = Inr m \<and> length (filter int_true m) = 2
           \<and> good_positions m = [i, j] \<and> i < j \<and> j < length (Muon_pt e)
           \<and> muon1_pt e = Inr (Muon_pt e ! i) \<and> muon2_pt e = Inr (Muon_pt e ! j)
           \<and> (opposite_sign e = Inr True \<longrightarrow>
                goodMuon_charge e = Inr [Muon_charge e ! i, Muon_charge e ! j]
                \<and> sint (Muon_charge e ! i) * sint (Muon_charge e ! j) < 0)"
proof -
  from exactly_two_mask [OF assms] have m: "goodMuon_mask e = Inr (spec_mask e)"
    and s: "Sum (spec_mask e) = 2" by simp_all
  from exactly_two_positions [OF assms] obtain i j where
    ij: "good_positions (spec_mask e) = [i, j]" and lt: "i < j" "j < length (Muon_pt e)" by blast
  have n: "length (filter int_true (spec_mask e)) = 2"
    using ij length_good_positions [of "spec_mask e"] by simp
  have pt: "goodMuon_pt e = Inr [Muon_pt e ! i, Muon_pt e ! j]"
    unfolding goodMuon_pt_def using masked_pair [OF m ij, of "Muon_pt e"] by simp
  have p1: "muon1_pt e = Inr (Muon_pt e ! i)" and p2: "muon2_pt e = Inr (Muon_pt e ! j)"
    by (simp_all add: muon1_pt_def muon2_pt_def pt bind_def rvec_at_def)
  have ch: "opposite_sign e = Inr True \<longrightarrow>
              goodMuon_charge e = Inr [Muon_charge e ! i, Muon_charge e ! j]
              \<and> sint (Muon_charge e ! i) * sint (Muon_charge e ! j) < 0"
  proof
    assume os: "opposite_sign e = Inr True"
    have c: "goodMuon_charge e =
               (if length (Muon_charge e) = length (Muon_pt e)
                then Inr [Muon_charge e ! i, Muon_charge e ! j] else Inl runtime_error)"
      unfolding goodMuon_charge_def by (rule masked_pair [OF m ij])
    with os have c': "goodMuon_charge e = Inr [Muon_charge e ! i, Muon_charge e ! j]"
      by (auto simp: opposite_sign_def bind_def split: if_splits)
    with os obtain p where "int_mul (Muon_charge e ! i) (Muon_charge e ! j) = Inr p" "p < 0"
      by (auto simp: opposite_sign_def bind_def rvec_at_def split: sum.splits)
    with int_mul_negative [of "Muon_charge e ! i" "Muon_charge e ! j" p] c'
    show "goodMuon_charge e = Inr [Muon_charge e ! i, Muon_charge e ! j]
              \<and> sint (Muon_charge e ! i) * sint (Muon_charge e ! j) < 0" by simp
  qed
  from m n ij lt p1 p2 ch show ?thesis by blast
qed

lemma spec_mask_unsorted_pair: "spec_mask unsorted_pair = [1, 0, 1]"
  by (simp add: spec_mask_def unsorted_pair_def spec_good_muon_def is_nan_def valof_def mag_def upt_rec)

lemma aligned_unsorted_pair: "aligned unsorted_pair"
  by (simp add: aligned_def unsorted_pair_def)

lemma goodMuon_mask_unsorted_pair: "goodMuon_mask unsorted_pair = Inr [1, 0, 1]"
  using goodMuon_mask_aligned [OF aligned_unsorted_pair] by (simp add: spec_mask_unsorted_pair)

lemma exactly_two_unsorted_pair: "exactly_two unsorted_pair = Inr True"
  by (simp add: exactly_two_def nGoodMuon_def bind_def goodMuon_mask_unsorted_pair Sum_def)

lemma opposite_sign_unsorted_pair: "opposite_sign unsorted_pair = Inr True"
  unfolding opposite_sign_def goodMuon_charge_def goodMuon_mask_unsorted_pair
  by (simp add: bind_def rvec_mask_def rvec_at_def int_mul_def int_true_def unsorted_pair_def)

lemma muon_pts_unsorted_pair:
  "muon1_pt unsorted_pair = Inr (Float_t False 131 0x480000)"
  "muon2_pt unsorted_pair = Inr (Float_t False 132 0x340000)"
  unfolding muon1_pt_def muon2_pt_def goodMuon_pt_def goodMuon_mask_unsorted_pair
  by (simp_all add: bind_def rvec_mask_def rvec_at_def int_true_def unsorted_pair_def)

theorem C2_pair_and_charge_witness:
  "exactly_two unsorted_pair = Inr True \<and> opposite_sign unsorted_pair = Inr True
   \<and> good_positions [1, 0, 1] = [0, 2]
   \<and> muon1_pt unsorted_pair = Inr (Float_t False 131 0x480000)
   \<and> muon2_pt unsorted_pair = Inr (Float_t False 132 0x340000)
   \<and> valof (Float_t False 131 0x480000) = 25 \<and> valof (Float_t False 132 0x340000) = 45
   \<and> (\<exists>m i j. goodMuon_mask unsorted_pair = Inr m \<and> length (filter int_true m) = 2
           \<and> good_positions m = [i, j] \<and> i < j \<and> j < length (Muon_pt unsorted_pair)
           \<and> muon1_pt unsorted_pair = Inr (Muon_pt unsorted_pair ! i)
           \<and> muon2_pt unsorted_pair = Inr (Muon_pt unsorted_pair ! j)
           \<and> (opposite_sign unsorted_pair = Inr True \<longrightarrow>
                goodMuon_charge unsorted_pair = Inr [Muon_charge unsorted_pair ! i, Muon_charge unsorted_pair ! j]
                \<and> sint (Muon_charge unsorted_pair ! i) * sint (Muon_charge unsorted_pair ! j) < 0))"
proof -
  have g: "good_positions [1, 0, 1] = [0, 2]"
    by (simp add: good_positions_def int_true_def upt_rec)
  have v: "valof (Float_t False 131 0x480000) = 25" "valof (Float_t False 132 0x340000) = 45"
    by (simp_all add: valof_def mag_def)
  from C2_pair_and_charge [OF exactly_two_unsorted_pair] g v
    exactly_two_unsorted_pair opposite_sign_unsorted_pair muon_pts_unsorted_pair
  show ?thesis by simp
qed

subsection \<open>The sample rows evaluated\<close>

lemma goodMuon_mask_scenario1: "goodMuon_mask scenario1 = Inr [1, 1]"
  using goodMuon_mask_aligned [of scenario1]
  by (simp add: spec_mask_scenario1) (simp add: aligned_def scenario1_def)

lemma exactly_two_scenario1: "exactly_two scenario1 = Inr True"
  by (simp add: exactly_two_def nGoodMuon_def bind_def goodMuon_mask_scenario1 Sum_def)

lemma opposite_sign_scenario1: "opposite_sign scenario1 = Inr True"
  unfolding opposite_sign_def goodMuon_charge_def goodMuon_mask_scenario1
  by (simp add: bind_def rvec_mask_def rvec_at_def int_mul_def int_true_def scenario1_def)

lemma selected_values_scenario1:
  "selected_values zero_mass scenario1 =
     Inr (2, Float_t False 132 0x340000, Float_t False 132 0x200000, Float_t False 0 0)"
  unfolding selected_values_def muon1_pt_def muon2_pt_def dimuon_mass_def goodMuon_pt_def
    goodMuon_eta_def goodMuon_phi_def goodMuon_mass_def goodMuon_mask_scenario1
  by (simp add: bind_def rvec_mask_def rvec_at_def int_true_def muon_vector_def zero_mass_def
      scenario1_def)

lemma passTrigger_samples: "passTrigger scenario1" "\<not> passTrigger no_trigger"
  by (simp_all add: passTrigger_def scenario1_def no_trigger_def)

lemma event_loop_two_rows:
  "event_loop zero_mass [scenario1, no_trigger] \<lparr>chain = analysis_chain, fills = []\<rparr> =
     Inr \<lparr>chain = [bump trigger_node 1 1, bump pair_node 1 0, bump charge_node 1 0],
          fills = [(2, Float_t False 132 0x340000, Float_t False 132 0x200000, Float_t False 0 0)]\<rparr>"
proof -
  have p: "predicate trigger_node = (\<lambda>e. Inr (passTrigger e))"
    "predicate pair_node = exactly_two" "predicate charge_node = opposite_sign"
    by (simp_all add: trigger_node_def pair_node_def charge_node_def)
  show ?thesis
    by (simp add: analysis_chain_def p passTrigger_samples exactly_two_scenario1
        opposite_sign_scenario1 selected_values_scenario1 bump_def)
qed

lemma run_limit_zero: "run zero_mass two_rows limit_zero = Inr limit_zero_result"
  unfolding run_def
  by (simp add: two_rows_def limit_zero_def Range_def bind_def event_loop_two_rows
      limit_zero_result_def Report_def bump_def trigger_node_def pair_node_def charge_node_def
      del: event_loop.simps)

subsection \<open>Element accesses of the masked collections\<close>

lemma check_filters_static:
  "check_filters e fs = Inr (fs', res) \<Longrightarrow>
     map predicate fs' = map predicate fs \<and> map label fs' = map label fs"
  by (induction fs arbitrary: fs' res) (auto split: sum.splits if_splits)

lemma chain_of_three:
  assumes "map predicate fs = map predicate analysis_chain"
  shows "\<exists>f1 f2 f3. fs = [f1, f2, f3] \<and> predicate f1 = (\<lambda>e. Inr (passTrigger e))
           \<and> predicate f2 = exactly_two \<and> predicate f3 = opposite_sign"
proof -
  from assms have "length fs = 3"
    using length_map [of predicate fs] by (simp add: analysis_chain_def)
  then obtain f1 f2 f3 where "fs = [f1, f2, f3]"
    by (cases fs; cases "tl fs"; cases "tl (tl fs)") auto
  with assms show ?thesis
    by (simp add: analysis_chain_def trigger_node_def pair_node_def charge_node_def)
qed

lemma exactly_two_error: "exactly_two e = Inl err \<Longrightarrow> err = runtime_error"
  using goodMuon_mask_not_aligned [of e] goodMuon_mask_aligned [of e]
  by (cases "aligned e") (auto simp: exactly_two_def nGoodMuon_def bind_def)

lemma masked_length:
  assumes "exactly_two e = Inr True" and "bind (goodMuon_mask e) (rvec_mask v) = Inr w"
  shows "length w = 2 \<and> rvec_at w 0 = Inr (w ! 0) \<and> rvec_at w 1 = Inr (w ! 1)"
proof -
  from exactly_two_mask [OF assms(1)] have m: "goodMuon_mask e = Inr (spec_mask e)" by simp
  from exactly_two_positions [OF assms(1)] obtain i j where
    ij: "good_positions (spec_mask e) = [i, j]" by blast
  from masked_pair [OF m ij, of v] assms(2) have "w = [v ! i, v ! j]"
    by (simp split: if_splits)
  then show ?thesis by (simp add: rvec_at_def)
qed

lemma int_mul_error: "int_mul a b = Inl err \<Longrightarrow> err = signed_overflow"
  by (auto simp: int_mul_def Let_def split: if_splits)

lemma masked_error:
  "bind (goodMuon_mask e) (rvec_mask v) = Inl err \<Longrightarrow> err = runtime_error"
  using goodMuon_mask_not_aligned [of e] goodMuon_mask_aligned [of e]
  by (cases "aligned e") (auto simp: bind_def rvec_mask_def split: if_splits)

lemma opposite_sign_in_bounds:
  assumes "exactly_two e = Inr True"
  shows "opposite_sign e \<noteq> Inl out_of_bounds"
proof (cases "goodMuon_charge e")
  case (Inl err)
  then have "err = runtime_error" unfolding goodMuon_charge_def by (rule masked_error)
  with Inl show ?thesis by (simp add: opposite_sign_def bind_def)
next
  case (Inr w)
  from masked_length [OF assms Inr [unfolded goodMuon_charge_def]]
  have "length w = 2" by simp
  then obtain a b where w: "w = [a, b]"
    by (cases w; cases "tl w") auto
  show ?thesis
    using int_mul_error [of a b]
    by (cases "int_mul a b") (auto simp: opposite_sign_def bind_def Inr rvec_at_def w)
qed

lemma muon_pt_in_bounds:
  assumes "exactly_two e = Inr True"
  shows "muon1_pt e \<noteq> Inl out_of_bounds \<and> muon2_pt e \<noteq> Inl out_of_bounds"
proof (cases "goodMuon_pt e")
  case (Inl err)
  then have "err = runtime_error" unfolding goodMuon_pt_def by (rule masked_error)
  with Inl show ?thesis by (simp add: muon1_pt_def muon2_pt_def bind_def)
next
  case (Inr w)
  from masked_length [OF assms Inr [unfolded goodMuon_pt_def]]
  show ?thesis by (simp add: muon1_pt_def muon2_pt_def bind_def Inr)
qed

lemma muon_vector_in_bounds:
  assumes "length pt = 2" "length eta = 2" "length phi = 2" "length mass = 2" "i < 2"
  shows "\<exists>v. muon_vector pt eta phi mass i = Inr v"
  using assms by (simp add: muon_vector_def bind_def rvec_at_def)

lemma dimuon_mass_in_bounds:
  assumes "exactly_two e = Inr True"
  shows "dimuon_mass inv_mass e \<noteq> Inl out_of_bounds"
proof -
  note ml = masked_length [OF assms] and me = masked_error [of e]
  show ?thesis
  proof (cases "goodMuon_pt e")
    case (Inl err)
    with me [of "Muon_pt e"] show ?thesis by (simp add: dimuon_mass_def bind_def goodMuon_pt_def)
  next
    case pt: (Inr pt)
    show ?thesis
    proof (cases "goodMuon_eta e")
      case (Inl err)
      with me [of "Muon_eta e"] pt show ?thesis
        by (simp add: dimuon_mass_def bind_def goodMuon_eta_def)
    next
      case eta: (Inr eta)
      show ?thesis
      proof (cases "goodMuon_phi e")
        case (Inl err)
        with me [of "Muon_phi e"] pt eta show ?thesis
          by (simp add: dimuon_mass_def bind_def goodMuon_phi_def)
      next
        case phi: (Inr phi)
        show ?thesis
        proof (cases "goodMuon_mass e")
          case (Inl err)
          with me [of "Muon_mass e"] pt eta phi show ?thesis
            by (simp add: dimuon_mass_def bind_def goodMuon_mass_def)
        next
          case mass: (Inr mass)
          have l: "length pt = 2" "length eta = 2" "length phi = 2" "length mass = 2"
            using ml [of "Muon_pt e" pt] ml [of "Muon_eta e" eta] ml [of "Muon_phi e" phi]
              ml [of "Muon_mass e" mass] pt eta phi mass
            by (simp_all add: goodMuon_pt_def goodMuon_eta_def goodMuon_phi_def goodMuon_mass_def)
          from muon_vector_in_bounds [OF l, of 0] muon_vector_in_bounds [OF l, of 1]
          obtain mu1 mu2 where "muon_vector pt eta phi mass 0 = Inr mu1"
            "muon_vector pt eta phi mass 1 = Inr mu2" by auto
          then show ?thesis by (simp add: dimuon_mass_def bind_def pt eta phi mass)
        qed
      qed
    qed
  qed
qed

lemma selected_values_in_bounds:
  assumes "exactly_two e = Inr True"
  shows "selected_values inv_mass e \<noteq> Inl out_of_bounds"
  using muon_pt_in_bounds [OF assms] dimuon_mass_in_bounds [OF assms, of inv_mass]
  by (auto simp: selected_values_def bind_def split: sum.splits)

lemma check_filters_analysis:
  assumes "map predicate fs = map predicate analysis_chain"
  shows "check_filters e fs \<noteq> Inl out_of_bounds
         \<and> (\<forall>fs'. check_filters e fs = Inr (fs', True) \<longrightarrow> exactly_two e = Inr True)"
proof -
  from chain_of_three [OF assms] obtain f1 f2 f3 where
    fs: "fs = [f1, f2, f3]" and p: "predicate f1 = (\<lambda>e. Inr (passTrigger e))"
    "predicate f2 = exactly_two" "predicate f3 = opposite_sign" by blast
  show ?thesis
  proof (cases "exactly_two e")
    case (Inl err)
    with exactly_two_error [of e err] show ?thesis by (simp add: fs p)
  next
    case (Inr b)
    show ?thesis
    proof (cases b)
      case True
      with Inr opposite_sign_in_bounds [of e] show ?thesis
        by (auto simp: fs p split: sum.splits)
    next
      case False
      with Inr show ?thesis by (simp add: fs p)
    qed
  qed
qed

lemma event_loop_in_bounds:
  "map predicate (chain s) = map predicate analysis_chain \<Longrightarrow>
     event_loop inv_mass rows s \<noteq> Inl out_of_bounds"
proof (induction rows arbitrary: s)
  case Nil
  show ?case by simp
next
  case (Cons e rows)
  note ca = check_filters_analysis [OF Cons.prems, of e]
  show ?case
  proof (cases "check_filters e (chain s)")
    case (Inl err)
    with ca show ?thesis by auto
  next
    case (Inr r)
    obtain c res where r: "r = (c, res)" by (cases r)
    from check_filters_static [of e "chain s" c res] Inr r Cons.prems
    have st: "map predicate c = map predicate analysis_chain" by simp
    show ?thesis
    proof (cases res)
      case True
      with ca Inr r have e2: "exactly_two e = Inr True" by simp
      show ?thesis
      proof (cases "selected_values inv_mass e")
        case (Inl err)
        with selected_values_in_bounds [OF e2, of inv_mass] Inr r True show ?thesis by auto
      next
        case sv: (Inr v)
        from Cons.IH [of "\<lparr>chain = c, fills = fills s @ [v]\<rparr>"] st
        show ?thesis by (simp add: Inr r True sv)
      qed
    next
      case False
      from Cons.IH [of "\<lparr>chain = c, fills = fills s\<rparr>"] st
      show ?thesis by (simp add: Inr r False)
    qed
  qed
qed

lemma Range_error: "Range b n rows = Inl err \<Longrightarrow> err = runtime_error"
  by (auto simp: Range_def split: if_splits)

lemma run_in_bounds: "run inv_mass source config \<noteq> Inl out_of_bounds"
proof -
  have "event_loop inv_mass node \<lparr>chain = analysis_chain, fills = []\<rparr> \<noteq> Inl out_of_bounds" for node
    by (rule event_loop_in_bounds) simp
  then show ?thesis
    using Range_error [of 0 _ _ out_of_bounds]
    by (auto simp: run_def bind_def Let_def split: option.splits sum.splits)
qed

text \<open>
  C10: for a row that passed the \<^verbatim>\<open>nGoodMuon == 2\<close> filter, every masked collection that
  exists has length exactly 2, so the accesses at indices 0 and 1 (the charges in the
  opposite-sign filter; \<open>pt\<close>, \<open>eta\<close>, \<open>phi\<close>, \<open>mass\<close> in the invariant mass and the two
  momenta) are in bounds; a whole run never reads outside a vector.
\<close>

theorem C10_accesses_in_bounds:
  assumes "exactly_two e = Inr True"
  shows "(\<forall>w. goodMuon_charge e = Inr w \<longrightarrow> length w = 2 \<and> rvec_at w 0 = Inr (w ! 0) \<and> rvec_at w 1 = Inr (w ! 1))
       \<and> (\<forall>w. goodMuon_pt e = Inr w \<longrightarrow> length w = 2 \<and> rvec_at w 0 = Inr (w ! 0) \<and> rvec_at w 1 = Inr (w ! 1))
       \<and> (\<forall>w. goodMuon_eta e = Inr w \<longrightarrow> length w = 2 \<and> rvec_at w 0 = Inr (w ! 0) \<and> rvec_at w 1 = Inr (w ! 1))
       \<and> (\<forall>w. goodMuon_phi e = Inr w \<longrightarrow> length w = 2 \<and> rvec_at w 0 = Inr (w ! 0) \<and> rvec_at w 1 = Inr (w ! 1))
       \<and> (\<forall>w. goodMuon_mass e = Inr w \<longrightarrow> length w = 2 \<and> rvec_at w 0 = Inr (w ! 0) \<and> rvec_at w 1 = Inr (w ! 1))
       \<and> opposite_sign e \<noteq> Inl out_of_bounds
       \<and> dimuon_mass inv_mass e \<noteq> Inl out_of_bounds
       \<and> muon1_pt e \<noteq> Inl out_of_bounds \<and> muon2_pt e \<noteq> Inl out_of_bounds
       \<and> run inv_mass source config \<noteq> Inl out_of_bounds"
  using masked_length [OF assms, of "Muon_charge e"] masked_length [OF assms, of "Muon_pt e"]
    masked_length [OF assms, of "Muon_eta e"] masked_length [OF assms, of "Muon_phi e"]
    masked_length [OF assms, of "Muon_mass e"] opposite_sign_in_bounds [OF assms]
    dimuon_mass_in_bounds [OF assms, of inv_mass] muon_pt_in_bounds [OF assms]
    run_in_bounds [of inv_mass source config]
  unfolding goodMuon_charge_def goodMuon_pt_def goodMuon_eta_def goodMuon_phi_def goodMuon_mass_def
  by blast

theorem C10_accesses_in_bounds_witness:
  "exactly_two scenario1 = Inr True
   \<and> goodMuon_charge scenario1 = Inr [1, - 1]
   \<and> rvec_at [1, - 1 :: 32 word] 0 = Inr 1 \<and> rvec_at [1, - 1 :: 32 word] 1 = Inr (- 1)
   \<and> opposite_sign scenario1 \<noteq> Inl out_of_bounds
   \<and> dimuon_mass zero_mass scenario1 \<noteq> Inl out_of_bounds
   \<and> muon1_pt scenario1 \<noteq> Inl out_of_bounds \<and> muon2_pt scenario1 \<noteq> Inl out_of_bounds
   \<and> run zero_mass two_rows limit_zero \<noteq> Inl out_of_bounds"
proof -
  have c: "goodMuon_charge scenario1 = Inr [1, - 1]"
    unfolding goodMuon_charge_def goodMuon_mask_scenario1
    by (simp add: bind_def rvec_mask_def int_true_def scenario1_def)
  from C10_accesses_in_bounds [OF exactly_two_scenario1, of zero_mass two_rows limit_zero]
    exactly_two_scenario1 c
  show ?thesis by simp
qed

subsection \<open>The arguments of the invariant mass\<close>

text \<open>
  For a row with exactly two good muons the two four-vectors are built from
  \<open>pt\<close>, \<open>eta\<close>, \<open>phi\<close>, \<open>mass\<close> at the two good positions, in array order. What the
  library computes from them is outside this development.
\<close>

lemma dimuon_mass_of_pair:
  assumes "exactly_two e = Inr True" and "good_positions (spec_mask e) = [i, j]"
    and "length (Muon_phi e) = length (Muon_pt e)" and "length (Muon_mass e) = length (Muon_pt e)"
  shows "dimuon_mass inv_mass e =
           Inr (inv_mass
                  \<lparr>vPt = Muon_pt e ! i, vEta = Muon_eta e ! i, vPhi = Muon_phi e ! i,
                   vM = Muon_mass e ! i\<rparr>
                  \<lparr>vPt = Muon_pt e ! j, vEta = Muon_eta e ! j, vPhi = Muon_phi e ! j,
                   vM = Muon_mass e ! j\<rparr>)"
proof -
  from exactly_two_mask [OF assms(1)] have m: "goodMuon_mask e = Inr (spec_mask e)"
    and a: "aligned e" by simp_all
  note mp = masked_pair [OF m assms(2)]
  from a have l: "length (Muon_eta e) = length (Muon_pt e)" by (simp add: aligned_def)
  have cols: "goodMuon_pt e = Inr [Muon_pt e ! i, Muon_pt e ! j]"
    "goodMuon_eta e = Inr [Muon_eta e ! i, Muon_eta e ! j]"
    "goodMuon_phi e = Inr [Muon_phi e ! i, Muon_phi e ! j]"
    "goodMuon_mass e = Inr [Muon_mass e ! i, Muon_mass e ! j]"
    unfolding goodMuon_pt_def goodMuon_eta_def goodMuon_phi_def goodMuon_mass_def
    using mp [of "Muon_pt e"] mp [of "Muon_eta e"] mp [of "Muon_phi e"] mp [of "Muon_mass e"]
      l assms(3,4)
    by simp_all
  show ?thesis
    by (simp add: dimuon_mass_def cols bind_def rvec_at_def muon_vector_def)
qed

subsection \<open>Runs that complete\<close>

text \<open>On rows that respect the data model no operation throws and no multiplication
  overflows: the event loop and the run return a result.\<close>

lemma well_formed_exactly_two:
  "well_formed e \<Longrightarrow> \<exists>b. exactly_two e = Inr b"
  using goodMuon_mask_aligned [of e]
  by (simp add: well_formed_def exactly_two_def nGoodMuon_def bind_def)

lemma int_mul_unit:
  assumes "a = 1 \<or> a = - 1" and "b = 1 \<or> b = - 1"
  shows "\<exists>p. int_mul a b = Inr p"
  using assms by (auto simp: int_mul_def)

lemma well_formed_selected:
  assumes "well_formed e" and "exactly_two e = Inr True"
  shows "(\<exists>b. opposite_sign e = Inr b) \<and> (\<exists>v. selected_values inv_mass e = Inr v)"
proof -
  from exactly_two_mask [OF assms(2)] have m: "goodMuon_mask e = Inr (spec_mask e)" by simp
  from exactly_two_positions [OF assms(2)] obtain i j where
    ij: "good_positions (spec_mask e) = [i, j]" and lt: "i < j" "j < length (Muon_pt e)" by blast
  note mp = masked_pair [OF m ij]
  from assms(1) have l: "length (Muon_phi e) = length (Muon_pt e)"
    "length (Muon_mass e) = length (Muon_pt e)" "length (Muon_charge e) = length (Muon_pt e)"
    "length (Muon_eta e) = length (Muon_pt e)"
    by (simp_all add: well_formed_def aligned_def)
  from assms(1) lt l have u: "Muon_charge e ! i = 1 \<or> Muon_charge e ! i = - 1"
    "Muon_charge e ! j = 1 \<or> Muon_charge e ! j = - 1"
    by (simp_all add: well_formed_def list_all_length)
  from int_mul_unit [OF u] obtain p where
    p: "int_mul (Muon_charge e ! i) (Muon_charge e ! j) = Inr p" by blast
  have c: "goodMuon_charge e = Inr [Muon_charge e ! i, Muon_charge e ! j]"
    unfolding goodMuon_charge_def using mp [of "Muon_charge e"] l by simp
  have os: "\<exists>b. opposite_sign e = Inr b"
    by (simp add: opposite_sign_def c bind_def rvec_at_def p)
  have cols: "goodMuon_pt e = Inr [Muon_pt e ! i, Muon_pt e ! j]"
    "goodMuon_eta e = Inr [Muon_eta e ! i, Muon_eta e ! j]"
    "goodMuon_phi e = Inr [Muon_phi e ! i, Muon_phi e ! j]"
    "goodMuon_mass e = Inr [Muon_mass e ! i, Muon_mass e ! j]"
    unfolding goodMuon_pt_def goodMuon_eta_def goodMuon_phi_def goodMuon_mass_def
    using mp [of "Muon_pt e"] mp [of "Muon_eta e"] mp [of "Muon_phi e"] mp [of "Muon_mass e"] l
    by simp_all
  have "\<exists>v. selected_values inv_mass e = Inr v"
    by (simp add: selected_values_def muon1_pt_def muon2_pt_def dimuon_mass_def cols bind_def
        rvec_at_def muon_vector_def)
  with os show ?thesis by simp
qed

lemma check_filters_well_formed:
  assumes "well_formed e" and "map predicate fs = map predicate analysis_chain"
  shows "\<exists>fs' res. check_filters e fs = Inr (fs', res)"
proof -
  from chain_of_three [OF assms(2)] obtain f1 f2 f3 where
    fs: "fs = [f1, f2, f3]" and p: "predicate f1 = (\<lambda>e. Inr (passTrigger e))"
    "predicate f2 = exactly_two" "predicate f3 = opposite_sign" by blast
  from well_formed_exactly_two [OF assms(1)] obtain b where b: "exactly_two e = Inr b" by blast
  show ?thesis
  proof (cases b)
    case True
    with b well_formed_selected [OF assms(1), of inv_mass] obtain b' where
      "opposite_sign e = Inr b'" by auto
    with b True show ?thesis by (auto simp: fs p)
  next
    case False
    with b show ?thesis by (auto simp: fs p)
  qed
qed

lemma event_loop_completes:
  assumes "list_all well_formed rows" and "map predicate (chain s) = map predicate analysis_chain"
  shows "\<exists>s'. event_loop inv_mass rows s = Inr s'"
  using assms
proof (induction rows arbitrary: s)
  case Nil
  show ?case by simp
next
  case (Cons e rows)
  then have wf: "well_formed e" and rest: "list_all well_formed rows" by simp_all
  from check_filters_well_formed [OF wf Cons.prems(2)] obtain c res where
    cf: "check_filters e (chain s) = Inr (c, res)" by blast
  from check_filters_static [OF cf] Cons.prems(2)
  have st: "map predicate c = map predicate analysis_chain" by simp
  show ?case
  proof (cases res)
    case True
    with check_filters_analysis [OF Cons.prems(2), of e] cf have "exactly_two e = Inr True" by simp
    from well_formed_selected [OF wf this, of inv_mass] obtain v where
      v: "selected_values inv_mass e = Inr v" by blast
    from Cons.IH [OF rest, of "\<lparr>chain = c, fills = fills s @ [v]\<rparr>"] st
    show ?thesis by (simp add: cf True v)
  next
    case False
    from Cons.IH [OF rest, of "\<lparr>chain = c, fills = fills s\<rparr>"] st
    show ?thesis by (simp add: cf False)
  qed
qed

lemma Range_from_zero: "\<exists>node. Range 0 n rows = Inr node \<and> set node \<subseteq> set rows"
  by (auto simp: Range_def dest: in_set_takeD)

lemma run_completes:
  assumes "source (inputFile config) = Some rows" and "list_all well_formed rows"
  shows "\<exists>r. run inv_mass source config = Inr r"
proof -
  obtain node where n: "(case maxEvents config of None \<Rightarrow> Inr rows
            | Some n \<Rightarrow> Range 0 (ucast n) rows) = Inr node" and sub: "set node \<subseteq> set rows"
    using Range_from_zero [of _ rows] by (cases "maxEvents config") auto
  from assms(2) sub have "list_all well_formed node" by (auto simp: list_all_iff)
  from event_loop_completes [OF this, of "\<lparr>chain = analysis_chain, fills = []\<rparr>" inv_mass]
  obtain s' where "event_loop inv_mass node \<lparr>chain = analysis_chain, fills = []\<rparr> = Inr s'"
    by auto
  with n assms(1) show ?thesis by (simp add: run_def bind_def)
qed

subsection \<open>The cutflow\<close>

lemma bump_zero [simp]: "bump f 0 0 = f"
  by (simp add: bump_def)

lemma bump_static [simp]: "predicate (bump f a r) = predicate f" "label (bump f a r) = label f"
  "accepted (bump f a r) = accepted f + a" "rejected (bump f a r) = rejected f + r"
  by (simp_all add: bump_def)

lemma passes_bump [simp]: "passes (bump f a r) = passes f" "fails (bump f a r) = fails f"
  by (simp_all add: passes_def fails_def fun_eq_iff)

lemma bump_bump [simp]: "bump (bump f a r) a' r' = bump f (a + a') (r + r')"
  by (simp add: bump_def)

lemma check_three:
  assumes "check_filters e [f1, f2, f3] = Inr (c, res)"
  shows "c = [bump f1 (if passes f1 e then 1 else 0) (if fails f1 e then 1 else 0),
              bump f2 (if passes f1 e \<and> passes f2 e then 1 else 0)
                      (if passes f1 e \<and> fails f2 e then 1 else 0),
              bump f3 (if passes f1 e \<and> passes f2 e \<and> passes f3 e then 1 else 0)
                      (if passes f1 e \<and> passes f2 e \<and> fails f3 e then 1 else 0)]
         \<and> res = (passes f1 e \<and> passes f2 e \<and> passes f3 e)
         \<and> (passes f1 e \<or> fails f1 e)
         \<and> (passes f1 e \<longrightarrow> passes f2 e \<or> fails f2 e)
         \<and> (passes f1 e \<and> passes f2 e \<longrightarrow> passes f3 e \<or> fails f3 e)"
  using assms
  by (auto simp: passes_def fails_def bump_def split: sum.splits if_splits)

lemma event_loop_counts:
  assumes "event_loop inv_mass rows s = Inr s'" and "chain s = [f1, f2, f3]"
  shows "chain s' =
           [bump f1 (length (filter (passes f1) rows)) (length (filter (fails f1) rows)),
            bump f2 (length (filter (\<lambda>e. passes f1 e \<and> passes f2 e) rows))
                    (length (filter (\<lambda>e. passes f1 e \<and> fails f2 e) rows)),
            bump f3 (length (filter (\<lambda>e. passes f1 e \<and> passes f2 e \<and> passes f3 e) rows))
                    (length (filter (\<lambda>e. passes f1 e \<and> passes f2 e \<and> fails f3 e) rows))]
         \<and> length (fills s') = length (fills s)
             + length (filter (\<lambda>e. passes f1 e \<and> passes f2 e \<and> passes f3 e) rows)
         \<and> (\<forall>e \<in> set rows. (passes f1 e \<or> fails f1 e)
               \<and> (passes f1 e \<longrightarrow> passes f2 e \<or> fails f2 e)
               \<and> (passes f1 e \<and> passes f2 e \<longrightarrow> passes f3 e \<or> fails f3 e))"
  using assms
proof (induction rows arbitrary: s f1 f2 f3)
  case Nil
  then show ?case by simp
next
  case (Cons e rows)
  from Cons.prems obtain c res where
    cf: "check_filters e [f1, f2, f3] = Inr (c, res)"
    by (auto split: sum.splits)
  note c3 = check_three [OF cf]
  let ?g1 = "bump f1 (if passes f1 e then 1 else 0) (if fails f1 e then 1 else 0)"
  let ?g2 = "bump f2 (if passes f1 e \<and> passes f2 e then 1 else 0)
                      (if passes f1 e \<and> fails f2 e then 1 else 0)"
  let ?g3 = "bump f3 (if passes f1 e \<and> passes f2 e \<and> passes f3 e then 1 else 0)
                      (if passes f1 e \<and> passes f2 e \<and> fails f3 e then 1 else 0)"
  from c3 have c: "c = [?g1, ?g2, ?g3]" by blast
  obtain s1 where s1: "event_loop inv_mass rows s1 = Inr s'" "chain s1 = c"
    "length (fills s1) = length (fills s) + (if res then 1 else 0)"
    using Cons.prems cf by (auto split: sum.splits if_splits)
  from Cons.IH [OF s1(1), of ?g1 ?g2 ?g3] s1(2) c
  have ih: "chain s' =
           [bump ?g1 (length (filter (passes f1) rows)) (length (filter (fails f1) rows)),
            bump ?g2 (length (filter (\<lambda>e. passes f1 e \<and> passes f2 e) rows))
                    (length (filter (\<lambda>e. passes f1 e \<and> fails f2 e) rows)),
            bump ?g3 (length (filter (\<lambda>e. passes f1 e \<and> passes f2 e \<and> passes f3 e) rows))
                    (length (filter (\<lambda>e. passes f1 e \<and> passes f2 e \<and> fails f3 e) rows))]"
    and ihl: "length (fills s') = length (fills s1)
             + length (filter (\<lambda>e. passes f1 e \<and> passes f2 e \<and> passes f3 e) rows)"
    and ihr: "\<forall>e \<in> set rows. (passes f1 e \<or> fails f1 e)
               \<and> (passes f1 e \<longrightarrow> passes f2 e \<or> fails f2 e)
               \<and> (passes f1 e \<and> passes f2 e \<longrightarrow> passes f3 e \<or> fails f3 e)"
    by simp_all
  have 1: "chain s' =
           [bump f1 (length (filter (passes f1) (e # rows))) (length (filter (fails f1) (e # rows))),
            bump f2 (length (filter (\<lambda>e. passes f1 e \<and> passes f2 e) (e # rows)))
                    (length (filter (\<lambda>e. passes f1 e \<and> fails f2 e) (e # rows))),
            bump f3 (length (filter (\<lambda>e. passes f1 e \<and> passes f2 e \<and> passes f3 e) (e # rows)))
                    (length (filter (\<lambda>e. passes f1 e \<and> passes f2 e \<and> fails f3 e) (e # rows)))]"
    unfolding ih by simp
  have 2: "length (fills s') = length (fills s)
             + length (filter (\<lambda>e. passes f1 e \<and> passes f2 e \<and> passes f3 e) (e # rows))"
    using ihl s1(3) c3 by simp
  have 3: "\<forall>e \<in> set (e # rows). (passes f1 e \<or> fails f1 e)
               \<and> (passes f1 e \<longrightarrow> passes f2 e \<or> fails f2 e)
               \<and> (passes f1 e \<and> passes f2 e \<longrightarrow> passes f3 e \<or> fails f3 e)"
    using ihr c3 by simp
  from 1 2 3 show ?case by blast
qed

lemma count_split:
  assumes "\<forall>e \<in> set rows. A e \<longrightarrow> P e \<or> F e" and "\<forall>e \<in> set rows. \<not> (P e \<and> F e)"
  shows "length (filter (\<lambda>e. A e \<and> P e) rows) + length (filter (\<lambda>e. A e \<and> F e) rows)
         = length (filter A rows)"
  using assms by (induction rows) auto

lemma not_passes_and_fails: "\<not> (passes f e \<and> fails f e)"
  by (simp add: passes_def fails_def)

lemma analysis_passes:
  "passes trigger_node e = passTrigger e"
  "passes pair_node e = (exactly_two e = Inr True)"
  "passes charge_node e = (opposite_sign e = Inr True)"
  by (simp_all add: passes_def trigger_node_def pair_node_def charge_node_def)

lemma run_Inr:
  assumes "run inv_mass source config = Inr r"
  shows "\<exists>rows s. source (inputFile config) = Some rows
           \<and> (case maxEvents config of None \<Rightarrow> Inr rows | Some n \<Rightarrow> Range 0 (ucast n) rows)
               = Inr (rows_in r)
           \<and> event_loop inv_mass (rows_in r) \<lparr>chain = analysis_chain, fills = []\<rparr> = Inr s
           \<and> implicit_mt r = (maxEvents config = None)
           \<and> cutflow r = Report (chain s) \<and> histo_fills r = fills s"
  using assms
  by (auto simp: run_def bind_def Let_def split: option.splits sum.splits)

lemma run_cutflow_counts:
  assumes "run inv_mass source config = Inr r"
  shows "cutflow r =
           [(''Trigger selection (HLT_IsoMu24 || HLT_IsoMu18)'',
             length (filter passTrigger (rows_in r)), length (rows_in r)),
            (''Exactly 2 good muons'',
             length (filter (\<lambda>e. passTrigger e \<and> exactly_two e = Inr True) (rows_in r)),
             length (filter passTrigger (rows_in r))),
            (''Opposite-sign muons'',
             length (filter (\<lambda>e. passTrigger e \<and> exactly_two e = Inr True
                                  \<and> opposite_sign e = Inr True) (rows_in r)),
             length (filter (\<lambda>e. passTrigger e \<and> exactly_two e = Inr True) (rows_in r)))]
       \<and> map fst (cutflow r) =
           [''Trigger selection (HLT_IsoMu24 || HLT_IsoMu18)'', ''Exactly 2 good muons'',
            ''Opposite-sign muons'']
       \<and> map (fst \<circ> snd) (cutflow r) =
           [length (filter passTrigger (rows_in r)),
            length (filter (\<lambda>e. passTrigger e \<and> exactly_two e = Inr True) (rows_in r)),
            length (filter (\<lambda>e. passTrigger e \<and> exactly_two e = Inr True
                                 \<and> opposite_sign e = Inr True) (rows_in r))]
       \<and> map (snd \<circ> snd) (cutflow r) =
           [length (rows_in r),
            length (filter passTrigger (rows_in r)),
            length (filter (\<lambda>e. passTrigger e \<and> exactly_two e = Inr True) (rows_in r))]
       \<and> sorted_wrt (\<ge>) (map (fst \<circ> snd) (cutflow r))
       \<and> length (histo_fills r) =
           length (filter (\<lambda>e. passTrigger e \<and> exactly_two e = Inr True
                                 \<and> opposite_sign e = Inr True) (rows_in r))"
proof -
  let ?rows = "rows_in r"
  let ?f1 = trigger_node and ?f2 = pair_node and ?f3 = charge_node
  from run_Inr [OF assms] obtain s where
    loop: "event_loop inv_mass ?rows \<lparr>chain = analysis_chain, fills = []\<rparr> = Inr s"
    and cf: "cutflow r = Report (chain s)" and hf: "histo_fills r = fills s" by blast
  have ch: "chain \<lparr>chain = analysis_chain, fills = []\<rparr> = [?f1, ?f2, ?f3]"
    by (simp add: analysis_chain_def)
  note ec = event_loop_counts [OF loop ch, unfolded analysis_passes]
  from ec have c: "chain s =
     [bump ?f1 (length (filter passTrigger ?rows)) (length (filter (fails ?f1) ?rows)),
      bump ?f2 (length (filter (\<lambda>e. passTrigger e \<and> exactly_two e = Inr True) ?rows))
               (length (filter (\<lambda>e. passTrigger e \<and> fails ?f2 e) ?rows)),
      bump ?f3 (length (filter (\<lambda>e. passTrigger e \<and> exactly_two e = Inr True
                                      \<and> opposite_sign e = Inr True) ?rows))
               (length (filter (\<lambda>e. passTrigger e \<and> exactly_two e = Inr True \<and> fails ?f3 e) ?rows))]"
    by blast
  from ec have fl: "length (fills s) =
      length (filter (\<lambda>e. passTrigger e \<and> exactly_two e = Inr True
                            \<and> opposite_sign e = Inr True) ?rows)" by simp
  from ec have reach: "\<forall>e \<in> set ?rows. (passTrigger e \<or> fails ?f1 e)
               \<and> (passTrigger e \<longrightarrow> exactly_two e = Inr True \<or> fails ?f2 e)
               \<and> (passTrigger e \<and> exactly_two e = Inr True
                    \<longrightarrow> opposite_sign e = Inr True \<or> fails ?f3 e)" by blast
  have a1: "length (filter passTrigger ?rows) + length (filter (fails ?f1) ?rows) = length ?rows"
    using count_split [of ?rows "\<lambda>e. True" passTrigger "fails ?f1"] reach
      not_passes_and_fails [of ?f1] by (simp add: analysis_passes)
  have a2: "length (filter (\<lambda>e. passTrigger e \<and> exactly_two e = Inr True) ?rows)
            + length (filter (\<lambda>e. passTrigger e \<and> fails ?f2 e) ?rows)
            = length (filter passTrigger ?rows)"
    using count_split [of ?rows passTrigger "\<lambda>e. exactly_two e = Inr True" "fails ?f2"] reach
      not_passes_and_fails [of ?f2] by (simp add: analysis_passes)
  have a3: "length (filter (\<lambda>e. passTrigger e \<and> exactly_two e = Inr True
                                \<and> opposite_sign e = Inr True) ?rows)
            + length (filter (\<lambda>e. passTrigger e \<and> exactly_two e = Inr True \<and> fails ?f3 e) ?rows)
            = length (filter (\<lambda>e. passTrigger e \<and> exactly_two e = Inr True) ?rows)"
    using count_split [of ?rows "\<lambda>e. passTrigger e \<and> exactly_two e = Inr True"
        "\<lambda>e. opposite_sign e = Inr True" "fails ?f3"] reach
      not_passes_and_fails [of ?f3] by (simp add: analysis_passes conj_assoc)
  have labels: "map fst (cutflow r) =
           [''Trigger selection (HLT_IsoMu24 || HLT_IsoMu18)'', ''Exactly 2 good muons'',
            ''Opposite-sign muons'']"
    by (simp add: cf c Report_def trigger_node_def pair_node_def charge_node_def)
  have pass: "map (fst \<circ> snd) (cutflow r) =
           [length (filter passTrigger ?rows),
            length (filter (\<lambda>e. passTrigger e \<and> exactly_two e = Inr True) ?rows),
            length (filter (\<lambda>e. passTrigger e \<and> exactly_two e = Inr True
                                 \<and> opposite_sign e = Inr True) ?rows)]"
    by (simp add: cf c Report_def trigger_node_def pair_node_def charge_node_def)
  have reached: "map (snd \<circ> snd) (cutflow r) =
           [length ?rows,
            length (filter passTrigger ?rows),
            length (filter (\<lambda>e. passTrigger e \<and> exactly_two e = Inr True) ?rows)]"
    using a1 a2 a3 by (simp add: cf c Report_def trigger_node_def pair_node_def charge_node_def)
  have mono: "sorted_wrt (\<ge>) (map (fst \<circ> snd) (cutflow r))"
    unfolding pass using a2 a3 by simp
  have triples: "cutflow r =
           [(''Trigger selection (HLT_IsoMu24 || HLT_IsoMu18)'',
             length (filter passTrigger ?rows), length ?rows),
            (''Exactly 2 good muons'',
             length (filter (\<lambda>e. passTrigger e \<and> exactly_two e = Inr True) ?rows),
             length (filter passTrigger ?rows)),
            (''Opposite-sign muons'',
             length (filter (\<lambda>e. passTrigger e \<and> exactly_two e = Inr True
                                  \<and> opposite_sign e = Inr True) ?rows),
             length (filter (\<lambda>e. passTrigger e \<and> exactly_two e = Inr True) ?rows))]"
    using a1 a2 a3 by (simp add: cf c Report_def trigger_node_def pair_node_def charge_node_def)
  from triples labels pass reached mono fl hf show ?thesis by simp
qed

lemma ragged_row_rejected_at_trigger:
  "exactly_two ragged_no_trigger = Inl runtime_error
   \<and> check_filters ragged_no_trigger analysis_chain =
        Inr ([bump trigger_node 0 1, pair_node, charge_node], False)"
proof -
  have "\<not> aligned ragged_no_trigger"
    by (simp add: aligned_def ragged_no_trigger_def no_trigger_def scenario1_def)
  then have "exactly_two ragged_no_trigger = Inl runtime_error"
    by (simp add: exactly_two_def nGoodMuon_def bind_def goodMuon_mask_not_aligned)
  moreover have "\<not> passTrigger ragged_no_trigger"
    by (simp add: passTrigger_def ragged_no_trigger_def no_trigger_def)
  ultimately show ?thesis
    by (simp add: analysis_chain_def trigger_node_def bump_def)
qed

subsection \<open>The row limit\<close>

lemma run_rows_in:
  assumes "run inv_mass source config = Inr r" and "source (inputFile config) = Some rows"
  shows "implicit_mt r = (maxEvents config = None)
       \<and> rows_in r = (case maxEvents config of
                        None \<Rightarrow> rows
                      | Some n \<Rightarrow> if (ucast n :: 32 word) = 0 then rows
                                  else take (unat (ucast n :: 32 word)) rows)"
  using run_Inr [OF assms(1)] assms(2)
  by (auto simp: Range_def split: option.splits if_splits)

lemma ucast_limit:
  fixes n :: "64 word"
  assumes "0 < sint n" and "sint n < 2 ^ 32"
  shows "(ucast n :: 32 word) \<noteq> 0 \<and> unat (ucast n :: 32 word) = nat (sint n)"
proof -
  have "sint n < 2 ^ 64" using assms(2) by simp
  then have "take_bit 64 (sint n) = sint n"
    using assms(1) by (intro take_bit_int_eq_self) simp_all
  then have u: "uint n = sint n" using uint_sint [of n] by simp
  have "uint (ucast n :: 32 word) = take_bit 32 (uint n)"
    using unsigned_ucast_eq [of n, where 'c = 32 and 'a = int] by simp
  also have "\<dots> = sint n"
    unfolding u using assms by (intro take_bit_int_eq_self) simp_all
  finally have v: "uint (ucast n :: 32 word) = sint n" .
  from v assms(1) have "(ucast n :: 32 word) \<noteq> 0" by auto
  moreover from v have "unat (ucast n :: 32 word) = nat (sint n)"
    by (simp add: unat_eq_nat_uint del: unsigned_ucast_eq)
  ultimately show ?thesis by simp
qed

lemma run_positive_limit:
  assumes "run inv_mass source config = Inr r" and "source (inputFile config) = Some rows"
    and "maxEvents config = Some n" and "0 < sint n" and "sint n < 2 ^ 32"
  shows "\<not> implicit_mt r \<and> rows_in r = take (nat (sint n)) rows"
  using run_rows_in [OF assms(1,2)] ucast_limit [OF assms(4,5)] assms(3) by simp

lemma run_no_limit:
  assumes "run inv_mass source config = Inr r" and "source (inputFile config) = Some rows"
    and "maxEvents config = None"
  shows "implicit_mt r \<and> rows_in r = rows"
  using run_rows_in [OF assms(1,2)] assms(3) by simp

text \<open>
  C6, at the configuration of \<^verbatim>\<open>-n 0\<close> on a file of two rows: the row limit is set and
  multithreading stays off, but the run processes both rows and not the first 0 rows,
  because \<^verbatim>\<open>Range(0, 0)\<close> runs to the end of the dataset.
\<close>

theorem C6_limit_zero_runs_all_rows:
  "\<exists>r. run zero_mass two_rows limit_zero = Inr r \<and> maxEvents limit_zero = Some 0
       \<and> implicit_mt r = False
       \<and> rows_in r = [scenario1, no_trigger] \<and> rows_in r \<noteq> take 0 [scenario1, no_trigger]
       \<and> map (snd \<circ> snd) (cutflow r) = [2, 1, 1]"
  using run_limit_zero by (simp add: limit_zero_result_def limit_zero_def)

subsection \<open>The cutflow of a run\<close>

text \<open>When a run returns: exactly when every row returns on the nodes it reaches.\<close>

lemma returns_simps [simp]: "returns (Inr v)" "\<not> returns (Inl err)"
  by (simp_all add: returns_def)

lemma check_filters_returns:
  assumes "map predicate fs = map predicate analysis_chain"
  shows "(\<exists>c res. check_filters e fs = Inr (c, res)) =
           (\<not> passTrigger e \<or> (returns (exactly_two e)
              \<and> (exactly_two e \<noteq> Inr True \<or> returns (opposite_sign e))))"
    and "(\<exists>c. check_filters e fs = Inr (c, True)) =
           (passTrigger e \<and> exactly_two e = Inr True \<and> opposite_sign e = Inr True)"
proof -
  from chain_of_three [OF assms] obtain f1 f2 f3 where
    fs: "fs = [f1, f2, f3]" and p: "predicate f1 = (\<lambda>e. Inr (passTrigger e))"
    "predicate f2 = exactly_two" "predicate f3 = opposite_sign" by blast
  show "(\<exists>c res. check_filters e fs = Inr (c, res)) =
           (\<not> passTrigger e \<or> (returns (exactly_two e)
              \<and> (exactly_two e \<noteq> Inr True \<or> returns (opposite_sign e))))"
    by (cases "exactly_two e"; cases "opposite_sign e") (auto simp: fs p)
  show "(\<exists>c. check_filters e fs = Inr (c, True)) =
           (passTrigger e \<and> exactly_two e = Inr True \<and> opposite_sign e = Inr True)"
    by (cases "exactly_two e"; cases "opposite_sign e") (auto simp: fs p)
qed

lemma event_loop_returns_iff:
  assumes "map predicate (chain s) = map predicate analysis_chain"
  shows "(\<exists>s'. event_loop inv_mass rows s = Inr s') = list_all (row_ok inv_mass) rows"
  using assms
proof (induction rows arbitrary: s)
  case Nil
  show ?case by simp
next
  case (Cons e rows)
  note cr = check_filters_returns [OF Cons.prems, of e]
  show ?case
  proof (cases "check_filters e (chain s)")
    case (Inl err)
    then have "\<not> (\<exists>c res. check_filters e (chain s) = Inr (c, res))" by simp
    with cr(1) have n: "passTrigger e"
      "\<not> (returns (exactly_two e) \<and> (exactly_two e \<noteq> Inr True \<or> returns (opposite_sign e)))"
      by blast+
    have "\<not> row_ok inv_mass e"
    proof (cases "exactly_two e = Inr True")
      case True
      with n(2) have "\<not> returns (opposite_sign e)" by simp
      moreover from this have "opposite_sign e \<noteq> Inr True" by auto
      ultimately show ?thesis using n(1) True by (simp add: row_ok_def)
    next
      case False
      with n(2) have "\<not> returns (exactly_two e)"
        by (cases "exactly_two e") auto
      with n(1) False show ?thesis by (simp add: row_ok_def)
    qed
    with Inl show ?thesis by simp
  next
    case (Inr x)
    obtain c res where x: "x = (c, res)" by (cases x)
    from check_filters_static [of e "chain s" c res] Inr x Cons.prems
    have st: "map predicate c = map predicate analysis_chain" by simp
    from cr(1) Inr x have ok: "\<not> passTrigger e \<or> (returns (exactly_two e)
              \<and> (exactly_two e \<noteq> Inr True \<or> returns (opposite_sign e)))" by auto
    show ?thesis
    proof (cases res)
      case True
      with cr(2) Inr x have all: "passTrigger e" "exactly_two e = Inr True"
        "opposite_sign e = Inr True" by auto
      then have ro: "row_ok inv_mass e = returns (selected_values inv_mass e)"
        by (simp add: row_ok_def)
      show ?thesis
      proof (cases "selected_values inv_mass e")
        case (Inl err)
        then show ?thesis by (simp add: Inr x True ro)
      next
        case sv: (Inr v)
        from Cons.IH [of "\<lparr>chain = c, fills = fills s @ [v]\<rparr>"] st
        show ?thesis by (simp add: Inr x True sv ro)
      qed
    next
      case False
      with cr(2) Inr x have "\<not> (passTrigger e \<and> exactly_two e = Inr True
          \<and> opposite_sign e = Inr True)" by auto
      with ok have ro: "row_ok inv_mass e" by (auto simp: row_ok_def)
      from Cons.IH [of "\<lparr>chain = c, fills = fills s\<rparr>"] st
      show ?thesis by (simp add: Inr x False ro)
    qed
  qed
qed

lemma Range_limit_rows:
  "(case maxEvents config of None \<Rightarrow> Inr rows | Some n \<Rightarrow> Range 0 (ucast n) rows)
     = Inr (limit_rows config rows)"
  by (simp add: Range_def limit_rows_def split: option.splits)

lemma run_returns_iff:
  assumes "source (inputFile config) = Some rows"
  shows "(\<exists>r. run inv_mass source config = Inr r)
           = list_all (row_ok inv_mass) (limit_rows config rows)"
proof -
  have "(\<exists>r. run inv_mass source config = Inr r) =
          (\<exists>s'. event_loop inv_mass (limit_rows config rows)
                   \<lparr>chain = analysis_chain, fills = []\<rparr> = Inr s')"
    unfolding run_def using assms
    by (auto simp: Range_limit_rows bind_def Let_def split: sum.splits)
  also have "\<dots> = list_all (row_ok inv_mass) (limit_rows config rows)"
    by (rule event_loop_returns_iff) simp
  finally show ?thesis .
qed

lemma run_rows_limit:
  assumes "run inv_mass source config = Inr r" and "source (inputFile config) = Some rows"
  shows "rows_in r = limit_rows config rows"
  using run_rows_in [OF assms] by (simp add: limit_rows_def)

lemma check_filters_short_circuit:
  "\<not> passTrigger e \<Longrightarrow>
     check_filters e analysis_chain = Inr ([bump trigger_node 0 1, pair_node, charge_node], False)"
  "passTrigger e \<Longrightarrow> exactly_two e = Inr False \<Longrightarrow>
     check_filters e analysis_chain =
       Inr ([bump trigger_node 1 0, bump pair_node 0 1, charge_node], False)"
  by (simp_all add: analysis_chain_def trigger_node_def pair_node_def charge_node_def bump_def)

text \<open>The rows of the four-row file, node by node.\<close>

lemma goodMuon_mask_ragged_single: "goodMuon_mask ragged_single = Inr [1]"
proof -
  have a: "aligned ragged_single" by (simp add: aligned_def ragged_single_def)
  have "spec_mask ragged_single = [1]"
    by (simp add: spec_mask_def ragged_single_def spec_good_muon_def is_nan_def valof_def mag_def)
  with goodMuon_mask_aligned [OF a] show ?thesis by simp
qed

lemma goodMuon_mask_ragged_same_sign: "goodMuon_mask ragged_same_sign = Inr [1, 1]"
proof -
  have a: "aligned ragged_same_sign"
    by (simp add: aligned_def ragged_same_sign_def scenario1_def)
  have "spec_mask ragged_same_sign = spec_mask scenario1"
    by (simp add: spec_mask_def ragged_same_sign_def)
  with goodMuon_mask_aligned [OF a] show ?thesis by (simp add: spec_mask_scenario1)
qed

lemma ragged_single_nodes:
  "passTrigger ragged_single" "exactly_two ragged_single = Inr False"
  "opposite_sign ragged_single = Inl runtime_error"
proof -
  show "passTrigger ragged_single" by (simp add: passTrigger_def ragged_single_def)
  show "exactly_two ragged_single = Inr False"
    by (simp add: exactly_two_def nGoodMuon_def bind_def goodMuon_mask_ragged_single Sum_def)
  show "opposite_sign ragged_single = Inl runtime_error"
    unfolding opposite_sign_def goodMuon_charge_def goodMuon_mask_ragged_single
    by (simp add: bind_def rvec_mask_def ragged_single_def)
qed

lemma ragged_same_sign_nodes:
  "passTrigger ragged_same_sign" "exactly_two ragged_same_sign = Inr True"
  "opposite_sign ragged_same_sign = Inr False"
  "selected_values inv_mass ragged_same_sign = Inl runtime_error"
proof -
  show "passTrigger ragged_same_sign"
    by (simp add: passTrigger_def ragged_same_sign_def scenario1_def)
  show "exactly_two ragged_same_sign = Inr True"
    by (simp add: exactly_two_def nGoodMuon_def bind_def goodMuon_mask_ragged_same_sign Sum_def)
  show "opposite_sign ragged_same_sign = Inr False"
    unfolding opposite_sign_def goodMuon_charge_def goodMuon_mask_ragged_same_sign
    by (simp add: bind_def rvec_mask_def rvec_at_def int_mul_def int_true_def
        ragged_same_sign_def)
  show "selected_values inv_mass ragged_same_sign = Inl runtime_error"
    unfolding selected_values_def muon1_pt_def muon2_pt_def dimuon_mass_def goodMuon_pt_def
      goodMuon_eta_def goodMuon_phi_def goodMuon_mass_def goodMuon_mask_ragged_same_sign
    by (simp add: bind_def rvec_mask_def rvec_at_def int_true_def ragged_same_sign_def
        scenario1_def)
qed

lemma ragged_no_trigger_nodes:
  "\<not> passTrigger ragged_no_trigger" "exactly_two ragged_no_trigger = Inl runtime_error"
  using ragged_row_rejected_at_trigger
  by (simp_all add: passTrigger_def ragged_no_trigger_def no_trigger_def)

lemma four_rows_ok:
  "list_all (row_ok zero_mass) [scenario1, ragged_no_trigger, ragged_single, ragged_same_sign]"
  by (simp add: row_ok_def passTrigger_samples exactly_two_scenario1 opposite_sign_scenario1
      selected_values_scenario1 ragged_no_trigger_nodes ragged_single_nodes
      ragged_same_sign_nodes)

text \<open>
  C7: for a run on the rows of a source file. A row that the trigger rejects ends its walk
  there, and a row that the pair filter rejects ends it there: the later filters keep
  their counters, whatever they would do on the row. The run returns exactly when every
  row returns on the nodes it reaches, so a node that would throw on a rejected row does
  not stop the run. The cutflow then lists the three filters in declaration order
  (trigger, exactly two good muons, opposite sign), each with the number of source rows
  that passed it and every filter before it, and with the number of rows that reached it,
  which is the pass-count of the filter before; the pass-counts never increase along the
  sequence, and the histograms are filled once per row that passed all three.
\<close>

theorem C7_cutflow:
  assumes "source (inputFile config) = Some rows"
  shows "(\<not> passTrigger e \<longrightarrow>
            check_filters e analysis_chain =
              Inr ([bump trigger_node 0 1, pair_node, charge_node], False))
       \<and> (passTrigger e \<and> exactly_two e = Inr False \<longrightarrow>
            check_filters e analysis_chain =
              Inr ([bump trigger_node 1 0, bump pair_node 0 1, charge_node], False))
       \<and> (\<exists>r. run inv_mass source config = Inr r)
             = list_all (row_ok inv_mass) (limit_rows config rows)
       \<and> (\<forall>r. run inv_mass source config = Inr r \<longrightarrow>
            rows_in r = limit_rows config rows
            \<and> cutflow r =
                [(''Trigger selection (HLT_IsoMu24 || HLT_IsoMu18)'',
                  length (filter passTrigger (limit_rows config rows)),
                  length (limit_rows config rows)),
                 (''Exactly 2 good muons'',
                  length (filter (\<lambda>e. passTrigger e \<and> exactly_two e = Inr True)
                            (limit_rows config rows)),
                  length (filter passTrigger (limit_rows config rows))),
                 (''Opposite-sign muons'',
                  length (filter (\<lambda>e. passTrigger e \<and> exactly_two e = Inr True
                                       \<and> opposite_sign e = Inr True) (limit_rows config rows)),
                  length (filter (\<lambda>e. passTrigger e \<and> exactly_two e = Inr True)
                            (limit_rows config rows)))]
            \<and> sorted_wrt (\<ge>) (map (fst \<circ> snd) (cutflow r))
            \<and> length (histo_fills r) =
                length (filter (\<lambda>e. passTrigger e \<and> exactly_two e = Inr True
                                     \<and> opposite_sign e = Inr True) (limit_rows config rows)))"
proof -
  have res: "rows_in r = limit_rows config rows
            \<and> cutflow r =
                [(''Trigger selection (HLT_IsoMu24 || HLT_IsoMu18)'',
                  length (filter passTrigger (limit_rows config rows)),
                  length (limit_rows config rows)),
                 (''Exactly 2 good muons'',
                  length (filter (\<lambda>e. passTrigger e \<and> exactly_two e = Inr True)
                            (limit_rows config rows)),
                  length (filter passTrigger (limit_rows config rows))),
                 (''Opposite-sign muons'',
                  length (filter (\<lambda>e. passTrigger e \<and> exactly_two e = Inr True
                                       \<and> opposite_sign e = Inr True) (limit_rows config rows)),
                  length (filter (\<lambda>e. passTrigger e \<and> exactly_two e = Inr True)
                            (limit_rows config rows)))]
            \<and> sorted_wrt (\<ge>) (map (fst \<circ> snd) (cutflow r))
            \<and> length (histo_fills r) =
                length (filter (\<lambda>e. passTrigger e \<and> exactly_two e = Inr True
                                     \<and> opposite_sign e = Inr True) (limit_rows config rows))"
    if r: "run inv_mass source config = Inr r" for r
  proof -
    from run_rows_limit [OF r assms] have ri: "rows_in r = limit_rows config rows" .
    from run_cutflow_counts [OF r, unfolded ri] ri show ?thesis by blast
  qed
  from check_filters_short_circuit [of e] run_returns_iff [where source = source and config = config and inv_mass = inv_mass, OF assms] res
  show ?thesis by blast
qed

theorem C7_cutflow_witness:
  "four_rows (inputFile limit_zero)
     = Some [scenario1, ragged_no_trigger, ragged_single, ragged_same_sign]
   \<and> limit_rows limit_zero [scenario1, ragged_no_trigger, ragged_single, ragged_same_sign]
     = [scenario1, ragged_no_trigger, ragged_single, ragged_same_sign]
   \<and> exactly_two ragged_no_trigger = Inl runtime_error
   \<and> opposite_sign ragged_single = Inl runtime_error
   \<and> selected_values zero_mass ragged_same_sign = Inl runtime_error
   \<and> check_filters ragged_no_trigger analysis_chain
     = Inr ([bump trigger_node 0 1, pair_node, charge_node], False)
   \<and> check_filters ragged_single analysis_chain
     = Inr ([bump trigger_node 1 0, bump pair_node 0 1, charge_node], False)
   \<and> (\<exists>r. run zero_mass four_rows limit_zero = Inr r
          \<and> cutflow r =
               [(''Trigger selection (HLT_IsoMu24 || HLT_IsoMu18)'', 3, 4),
                (''Exactly 2 good muons'', 2, 3), (''Opposite-sign muons'', 1, 2)]
          \<and> length (histo_fills r) = 1)"
proof -
  let ?rows = "[scenario1, ragged_no_trigger, ragged_single, ragged_same_sign]"
  have src: "four_rows (inputFile limit_zero) = Some ?rows"
    by (simp add: four_rows_def limit_zero_def)
  have lim: "limit_rows limit_zero ?rows = ?rows"
    by (simp add: limit_rows_def limit_zero_def)
  note c7a = C7_cutflow [where source = four_rows and config = limit_zero
      and e = ragged_no_trigger and inv_mass = zero_mass, OF src]
  note c7b = C7_cutflow [where source = four_rows and config = limit_zero
      and e = ragged_single and inv_mass = zero_mass, OF src]
  from c7a have walk1: "check_filters ragged_no_trigger analysis_chain
     = Inr ([bump trigger_node 0 1, pair_node, charge_node], False)"
    using ragged_no_trigger_nodes(1) by blast
  from c7b have walk2: "check_filters ragged_single analysis_chain
     = Inr ([bump trigger_node 1 0, bump pair_node 0 1, charge_node], False)"
    using ragged_single_nodes(1,2) by blast
  from c7a four_rows_ok obtain r where r: "run zero_mass four_rows limit_zero = Inr r"
    unfolding lim by blast
  from c7a r have cf: "cutflow r =
                [(''Trigger selection (HLT_IsoMu24 || HLT_IsoMu18)'',
                  length (filter passTrigger ?rows), length ?rows),
                 (''Exactly 2 good muons'',
                  length (filter (\<lambda>e. passTrigger e \<and> exactly_two e = Inr True) ?rows),
                  length (filter passTrigger ?rows)),
                 (''Opposite-sign muons'',
                  length (filter (\<lambda>e. passTrigger e \<and> exactly_two e = Inr True
                                       \<and> opposite_sign e = Inr True) ?rows),
                  length (filter (\<lambda>e. passTrigger e \<and> exactly_two e = Inr True) ?rows))]"
    and hl: "length (histo_fills r) =
                length (filter (\<lambda>e. passTrigger e \<and> exactly_two e = Inr True
                                     \<and> opposite_sign e = Inr True) ?rows)"
    unfolding lim by blast+
  have counts: "length (filter passTrigger ?rows) = 3"
    "length (filter (\<lambda>e. passTrigger e \<and> exactly_two e = Inr True) ?rows) = 2"
    "length (filter (\<lambda>e. passTrigger e \<and> exactly_two e = Inr True
                           \<and> opposite_sign e = Inr True) ?rows) = 1"
    by (simp_all add: passTrigger_samples exactly_two_scenario1 opposite_sign_scenario1
        ragged_no_trigger_nodes ragged_single_nodes ragged_same_sign_nodes)
  from cf hl have "cutflow r =
               [(''Trigger selection (HLT_IsoMu24 || HLT_IsoMu18)'', 3, 4),
                (''Exactly 2 good muons'', 2, 3), (''Opposite-sign muons'', 1, 2)]
          \<and> length (histo_fills r) = 1"
    unfolding counts by simp
  with r src lim walk1 walk2 ragged_no_trigger_nodes(2) ragged_single_nodes(3)
    ragged_same_sign_nodes(4) [of zero_mass]
  show ?thesis by blast
qed

subsection \<open>Exit codes\<close>

lemma parseArgs_loop_exit:
  "parseArgs_loop atoll opts config =
     (case first_stop opts of
        None \<Rightarrow> parseArgs_loop atoll opts config
      | Some c \<Rightarrow> Inl (if c = CHR ''h'' then 0 else 1))"
  by (induction opts arbitrary: config)
    (auto simp: first_stop_def config_option_def split: option.splits)

lemma parseArgs_loop_config:
  "first_stop opts = None \<Longrightarrow> \<exists>config'. parseArgs_loop atoll opts config = Inr config'"
  by (induction opts arbitrary: config)
    (auto simp: first_stop_def config_option_def split: if_splits)

lemma parseArgs_cases:
  "(help_requested opts \<and> \<not> getopt_error opts \<and> parseArgs atoll opts = Inl 0)
   \<or> (getopt_error opts \<and> \<not> help_requested opts \<and> parseArgs atoll opts = Inl 1)
   \<or> (\<not> help_requested opts \<and> \<not> getopt_error opts \<and> (\<exists>config. parseArgs atoll opts = Inr config))"
proof (cases "first_stop opts")
  case None
  with parseArgs_loop_config [OF None, of atoll] show ?thesis
    by (auto simp: parseArgs_def help_requested_def getopt_error_def)
next
  case (Some c)
  then show ?thesis
    unfolding parseArgs_def help_requested_def getopt_error_def
    by (subst (1 2 3) parseArgs_loop_exit) auto
qed

text \<open>
  The exit code of \<^verbatim>\<open>main\<close>: 0 exactly when help was requested or the arguments parsed
  and the analysis ran to its end, 1 exactly when \<^verbatim>\<open>getopt_long\<close> reported an unknown
  option or a missing argument, or the arguments parsed and the analysis threw.
\<close>

lemma main_exit_codes:
  "(main inv_mass atoll source opts = Some 0) =
     (help_requested opts
      \<or> (\<exists>config r. parseArgs atoll opts = Inr config \<and> run inv_mass source config = Inr r))
   \<and> (main inv_mass atoll source opts = Some 1) =
     (getopt_error opts
      \<or> (\<exists>config. parseArgs atoll opts = Inr config
            \<and> run inv_mass source config = Inl runtime_error))"
  using parseArgs_cases [of opts atoll]
  by (auto simp: main_def split: sum.splits)

lemma atoll_samples:
  "atoll_digits ''0'' = 0" "atoll_digits ''10000'' = 10000" "atoll_digits ''abc'' = 0"
  by (simp_all add: atoll_digits_def is_digit_def)

lemma main_exit_codes_samples:
  "main zero_mass atoll_digits two_rows [(CHR ''n'', ''0'')] = Some 0
   \<and> parseArgs atoll_digits [(CHR ''n'', ''0'')] = Inr limit_zero
   \<and> getopt_error [(CHR ''n'', ''0''), (CHR ''?'', [])]
   \<and> main zero_mass atoll_digits two_rows [(CHR ''n'', ''0''), (CHR ''?'', [])] = Some 1
   \<and> run zero_mass two_rows (limit_zero\<lparr>inputFile := ''missing.root''\<rparr>) = Inl runtime_error
   \<and> main zero_mass atoll_digits two_rows [(CHR ''n'', ''0''), (CHR ''i'', ''missing.root'')] = Some 1
   \<and> help_requested [(CHR ''h'', [])]
   \<and> main zero_mass atoll_digits two_rows [(CHR ''h'', [])] = Some 0"
proof -
  have p: "parseArgs atoll_digits [(CHR ''n'', ''0'')] = Inr limit_zero"
    by (simp add: parseArgs_def atoll_samples limit_zero_def)
  have q: "parseArgs atoll_digits [(CHR ''n'', ''0''), (CHR ''i'', ''missing.root'')]
             = Inr (limit_zero\<lparr>inputFile := ''missing.root''\<rparr>)"
    by (simp add: parseArgs_def atoll_samples limit_zero_def)
  have r: "run zero_mass two_rows (limit_zero\<lparr>inputFile := ''missing.root''\<rparr>) = Inl runtime_error"
    by (simp add: run_def two_rows_def limit_zero_def)
  have a: "getopt_error [(CHR ''n'', ''0''), (CHR ''?'', [])]"
    by (simp add: getopt_error_def first_stop_def config_option_def)
  have h: "help_requested [(CHR ''h'', [])]"
    by (simp add: help_requested_def first_stop_def config_option_def)
  from main_exit_codes [of zero_mass atoll_digits two_rows "[(CHR ''n'', ''0'')]"]
    main_exit_codes [of zero_mass atoll_digits two_rows "[(CHR ''n'', ''0''), (CHR ''?'', [])]"]
    main_exit_codes [of zero_mass atoll_digits two_rows "[(CHR ''n'', ''0''), (CHR ''i'', ''missing.root'')]"]
    main_exit_codes [of zero_mass atoll_digits two_rows "[(CHR ''h'', [])]"]
    p q r a h run_limit_zero
  show ?thesis by simp
qed

text \<open>
  C9, at the command line \<^verbatim>\<open>-n abc\<close> on the file of two rows: the value of the option is
  not a number, \<^verbatim>\<open>std::atoll\<close> turns it into 0 without a check, \<^verbatim>\<open>parseArgs\<close> returns
  the configuration of \<^verbatim>\<open>-n 0\<close>, the analysis runs over both rows and the process exits
  with 0, not 1.
\<close>

theorem C9_non_numeric_limit_exits_zero:
  "\<not> decimal_number ''abc''
   \<and> parseArgs atoll_digits [(CHR ''n'', ''abc'')] = Inr limit_zero
   \<and> main zero_mass atoll_digits two_rows [(CHR ''n'', ''abc'')] = Some 0
   \<and> run zero_mass two_rows limit_zero = Inr limit_zero_result
   \<and> rows_in limit_zero_result = [scenario1, no_trigger]"
proof -
  have d: "\<not> decimal_number ''abc''"
    by (simp add: decimal_number_def is_digit_def)
  have p: "parseArgs atoll_digits [(CHR ''n'', ''abc'')] = Inr limit_zero"
    by (simp add: parseArgs_def atoll_samples limit_zero_def)
  have m: "main zero_mass atoll_digits two_rows [(CHR ''n'', ''abc'')] = Some 0"
    by (simp add: main_def p run_limit_zero)
  from d p m run_limit_zero show ?thesis by (simp add: limit_zero_result_def)
qed

end
